theory Spec2Isabelle
  imports Main "HOL-Library.AList" "HOL-Library.Char_ord" "HOL-Library.List_Lexorder"
    "HOL-Library.Multiset"
begin

section \<open>Python string primitives used by localrepos.py\<close>

text \<open>
  A Python \<open>str\<close> is modelled as a \<open>string\<close>: a list of characters, each standing for
  one code point in the range 0..255. The order on strings is the lexicographic order by
  code point, which is how Python compares \<open>str\<close> values.
\<close>

text \<open>\<open>str.isspace\<close> on one character; also the class \<open>\s\<close> of the \<open>re\<close> module.\<close>

definition isspace :: "char \<Rightarrow> bool" where
  "isspace c = (c \<in> set [CHR 0x09, CHR 0x0A, CHR 0x0B, CHR 0x0C, CHR 0x0D,
                          CHR 0x1C, CHR 0x1D, CHR 0x1E, CHR 0x1F, CHR 0x20,
                          CHR 0x85, CHR 0xA0])"

text \<open>\<open>s.strip()\<close> and \<open>s.strip(chars)\<close>: drop the characters satisfying \<open>P\<close> at both ends.\<close>

definition strip_with :: "(char \<Rightarrow> bool) \<Rightarrow> string \<Rightarrow> string" where
  "strip_with P s = rev (dropWhile P (rev (dropWhile P s)))"

definition strip :: "string \<Rightarrow> string" where
  "strip s = strip_with isspace s"

text \<open>\<open>s.startswith(p)\<close>.\<close>

definition startswith :: "string \<Rightarrow> string \<Rightarrow> bool" where
  "startswith s p = (take (length p) s = p)"

text \<open>
  \<open>s.split(sep)\<close>: the pieces between the occurrences of \<open>sep\<close>, found scanning from the
  left without overlap. The separator is a non-empty literal at every call of the source.
\<close>

fun split :: "string \<Rightarrow> string \<Rightarrow> string list" where
  "split sep [] = [[]]"
| "split sep (c # cs) =
     (if startswith (c # cs) sep then [] # split sep (drop (length sep - 1) cs)
      else (let ps = split sep cs in (c # hd ps) # tl ps))"

text \<open>\<open>s.split(sep, 1)\<close>: split at the first occurrence of \<open>sep\<close> only.\<close>

fun split1 :: "string \<Rightarrow> string \<Rightarrow> string list" where
  "split1 sep [] = [[]]"
| "split1 sep (c # cs) =
     (if startswith (c # cs) sep then [[], drop (length sep - 1) cs]
      else (let ps = split1 sep cs in (c # hd ps) # tl ps))"

text \<open>\<open>sep.join(xs)\<close>.\<close>

fun join :: "string \<Rightarrow> string list \<Rightarrow> string" where
  "join sep [] = []"
| "join sep [x] = x"
| "join sep (x # y # ys) = x @ sep @ join sep (y # ys)"

text \<open>\<open>s.replace(old, new)\<close> for a non-empty \<open>old\<close>.\<close>

fun replace :: "string \<Rightarrow> string \<Rightarrow> string \<Rightarrow> string" where
  "replace old new [] = []"
| "replace old new (c # cs) =
     (if startswith (c # cs) old then new @ replace old new (drop (length old - 1) cs)
      else c # replace old new cs)"

text \<open>\<open>s.lower()\<close>: A..Z and the upper-case letters of the range 0xC0..0xDE move up by 32.\<close>

definition lower_chr :: "char \<Rightarrow> char" where
  "lower_chr c =
     (let n = (of_char c :: nat)
      in if (65 \<le> n \<and> n \<le> 90) \<or> (192 \<le> n \<and> n \<le> 222 \<and> n \<noteq> 215)
         then char_of (n + 32) else c)"

definition lower :: "string \<Rightarrow> string" where
  "lower s = map lower_chr s"

text \<open>\<open>self._attrfix.sub(" ", s)\<close> with \<open>_attrfix = re.compile("\\s+")\<close>:
  every maximal run of whitespace becomes one space.\<close>

function attrfix_sub :: "string \<Rightarrow> string" where
  "attrfix_sub [] = []"
| "attrfix_sub (c # cs) =
     (if isspace c then CHR '' '' # attrfix_sub (dropWhile isspace cs)
      else c # attrfix_sub cs)"
  by pat_completeness auto
termination
  by (relation "measure length") (auto simp: length_dropWhile_le less_Suc_eq_le)

section \<open>Repodata\<close>

datatype error =
    IndexError
  | KeyError
  | UnknownRepositoryFormat string
  | UnableToMerge string

text \<open>The fields of \<open>Repodata\<close>; \<open>attrs\<close> is a Python dict, kept as an association list
  in insertion order with distinct keys.\<close>

record Repodata =
  type :: string
  components :: "string list"
  url :: string
  trusted :: bool
  name :: string
  attrs :: "(string \<times> string) list"
  is_flat :: bool

text \<open>\<open>Repodata.__init__\<close>.\<close>

definition Repodata_init :: Repodata where
  "Repodata_init =
     \<lparr>type = [], components = [], url = [], trusted = False, name = [], attrs = [],
      is_flat = False\<rparr>"

text \<open>\<open>Repodata.is_valid\<close>.\<close>

definition is_valid :: "Repodata \<Rightarrow> bool" where
  "is_valid r = ([] \<notin> set [type r, url r, name r])"

text \<open>\<open>dict.update\<close>: the pairs of \<open>other\<close> are stored one by one in their order.\<close>

definition dict_update :: "(string \<times> string) list \<Rightarrow> (string \<times> string) list \<Rightarrow> (string \<times> string) list" where
  "dict_update d other = fold (\<lambda>kv acc. AList.update (fst kv) (snd kv) acc) other d"

text \<open>
  \<open>Repodata.merge\<close> mutates \<open>self\<close> and may raise. The model returns the exception raised,
  if any, together with the state of \<open>self\<close> when the call ends.
\<close>

definition merge :: "Repodata \<Rightarrow> Repodata \<Rightarrow> error option \<times> Repodata" where
  "merge self repo =
     (if url self \<noteq> url repo then (Some (UnableToMerge (url repo)), self)
      else
        let s1 = self\<lparr>components := sort (remdups (components self @ components repo))\<rparr>;
            s2 = (if \<not> trusted repo then s1\<lparr>trusted := False\<rparr> else s1);
            s3 = s2\<lparr>attrs := dict_update (attrs s2) (attrs repo)\<rparr>
        in (None, s3))"

section \<open>DebianRepofind\<close>

text \<open>Python indexing \<open>xs[i]\<close>: a negative index counts from the end, and an index out
  of range raises \<open>IndexError\<close>.\<close>

definition item :: "'a list \<Rightarrow> int \<Rightarrow> error + 'a" where
  "item xs i =
     (if 0 \<le> i \<and> i < int (length xs) then Inr (xs ! nat i)
      else if i < 0 \<and> - int (length xs) \<le> i then Inr (xs ! nat (int (length xs) + i))
      else Inl IndexError)"

text \<open>
  The loop over the attribute tokens of \<open>_parse_repo\<close>:
  \<^verbatim>\<open>kw = attrset.split("=", 1); r.attrs[kw[0]] = kw[1]\<close>.
\<close>

fun parse_attrs :: "string list \<Rightarrow> (string \<times> string) list \<Rightarrow> error + (string \<times> string) list" where
  "parse_attrs [] d = Inr d"
| "parse_attrs (attrset # rest) d =
     (let kw = split1 ''='' attrset
      in case item kw 0 of Inl e \<Rightarrow> Inl e
         | Inr k \<Rightarrow> (case item kw 1 of Inl e \<Rightarrow> Inl e
                     | Inr v \<Rightarrow> parse_attrs rest (AList.update k v d)))"

text \<open>The name of a flat repository:
  \<^verbatim>\<open>"_".join(url.split("://")[-1].split("/")).replace(".", "_").lower().strip("_").replace(":", "")\<close>.\<close>

definition flat_name :: "string \<Rightarrow> error + string" where
  "flat_name u =
     (case item (split ''://'' u) (- 1) of Inl e \<Rightarrow> Inl e
      | Inr h \<Rightarrow>
          Inr (replace '':'' []
                (strip_with (\<lambda>c. c = CHR ''_'')
                  (lower (replace ''.'' ''_'' (join ''_'' (split ''/'' h)))))))"

text \<open>The second half of \<open>_parse_repo\<close>, from \<^verbatim>\<open>r.url = repodata.split(" ")[0]\<close> on.
  \<open>cp_repodata\<close> is the line as it was given.\<close>

definition parse_url_name :: "string \<Rightarrow> Repodata \<Rightarrow> string \<Rightarrow> error + Repodata" where
  "parse_url_name cp_repodata r repodata =
     (case item (split '' '' repodata) 0 of Inl e \<Rightarrow> Inl e
      | Inr u \<Rightarrow>
          let r1 = r\<lparr>url := u\<rparr>;
              repodata1 = strip (drop (length (url r1)) repodata)
          in if repodata1 = ''/'' then
               (case flat_name (url r1) of Inl e \<Rightarrow> Inl e
                | Inr n \<Rightarrow> Inr (r1\<lparr>is_flat := True, name := n\<rparr>))
             else
               let nc = split '' '' repodata1
               in if length nc < 2 then Inl (UnknownRepositoryFormat cp_repodata)
                  else (case nc of [] \<Rightarrow> Inl IndexError
                        | n # nc1 \<Rightarrow> Inr (r1\<lparr>name := n, components := nc1\<rparr>)))"

text \<open>\<open>DebianRepofind._parse_repo\<close>.\<close>

definition parse_repo :: "string \<Rightarrow> error + Repodata" where
  "parse_repo repodata =
     (let r = Repodata_init
      in if \<not> startswith repodata ''deb '' then Inr r
         else
           let r1 = r\<lparr>type := ''apt-deb''\<rparr>;
               repodata1 = strip (drop 3 repodata)
           in if startswith repodata1 ''['' \<and> CHR '']'' \<in> set repodata1 then
                (case item (split '']'' (drop 1 repodata1)) 0 of Inl e \<Rightarrow> Inl e
                 | Inr blk \<Rightarrow>
                     (case parse_attrs (split '' '' (attrfix_sub (strip blk))) (attrs r1) of
                        Inl e \<Rightarrow> Inl e
                      | Inr a \<Rightarrow>
                          (case item (split '']'' repodata1) 1 of Inl e \<Rightarrow> Inl e
                           | Inr rest \<Rightarrow>
                               parse_url_name repodata (r1\<lparr>attrs := a\<rparr>) (strip rest))))
              else parse_url_name repodata r1 repodata1)"

text \<open>\<open>DebianRepofind._parse_repofile\<close>, on the lines \<open>rf.readlines()\<close> gives; \<open>repos\<close> is
  the list built so far.\<close>

fun parse_lines :: "string list \<Rightarrow> Repodata list \<Rightarrow> error + Repodata list" where
  "parse_lines [] repos = Inr repos"
| "parse_lines (l # ls) repos =
     (let l1 = strip l;
          l2 = (if startswith l1 ''#'' then [] else l1)
      in if l2 = [] then parse_lines ls repos
         else (case parse_repo l2 of Inl e \<Rightarrow> Inl e
               | Inr r \<Rightarrow> parse_lines ls (if is_valid r then repos @ [r] else repos)))"

definition parse_repofile :: "string list \<Rightarrow> error + Repodata list" where
  "parse_repofile ls = parse_lines ls []"

text \<open>
  \<open>DebianRepofind.get_repos\<close>. Listing the directory is outside the model: the argument is
  the list of the files' lines, in the order of \<open>repofiles\<close>. The dict \<open>ridx\<close> is an
  association list in insertion order.
\<close>

type_synonym ridx = "(string \<times> Repodata list) list"

text \<open>\<^verbatim>\<open>if not ridx.get(r.url): ridx[r.url] = []\<close> and \<^verbatim>\<open>ridx[r.url].append(r)\<close>.\<close>

definition index_repo :: "Repodata \<Rightarrow> ridx \<Rightarrow> error + ridx" where
  "index_repo r ridx =
     (let ridx1 = (if (case map_of ridx (url r) of None \<Rightarrow> True | Some v \<Rightarrow> v = [])
                   then AList.update (url r) [] ridx else ridx)
      in case map_of ridx1 (url r) of None \<Rightarrow> Inl KeyError
         | Some v \<Rightarrow> Inr (AList.update (url r) (v @ [r]) ridx1))"

fun index_repos :: "Repodata list \<Rightarrow> ridx \<Rightarrow> error + ridx" where
  "index_repos [] ridx = Inr ridx"
| "index_repos (r # rs) ridx =
     (case index_repo r ridx of Inl e \<Rightarrow> Inl e | Inr ridx1 \<Rightarrow> index_repos rs ridx1)"

fun index_files :: "string list list \<Rightarrow> ridx \<Rightarrow> error + ridx" where
  "index_files [] ridx = Inr ridx"
| "index_files (rf # rfs) ridx =
     (case parse_repofile rf of Inl e \<Rightarrow> Inl e
      | Inr rs \<Rightarrow> (case index_repos rs ridx of Inl e \<Rightarrow> Inl e
                   | Inr ridx1 \<Rightarrow> index_files rfs ridx1))"

text \<open>The loop \<^verbatim>\<open>for _r in v\<close>: \<open>r\<close> is \<open>None\<close> or the accumulator.\<close>

fun merge_group :: "Repodata list \<Rightarrow> Repodata option \<Rightarrow> error + Repodata option" where
  "merge_group [] r = Inr r"
| "merge_group (x # xs) None = merge_group xs (Some x)"
| "merge_group (x # xs) (Some a) =
     (case merge a x of (Some e, _) \<Rightarrow> Inl e | (None, a1) \<Rightarrow> merge_group xs (Some a1))"

text \<open>The loop \<^verbatim>\<open>for v in ridx.values()\<close>.\<close>

fun flatten :: "Repodata list list \<Rightarrow> Repodata list \<Rightarrow> error + Repodata list" where
  "flatten [] repos = Inr repos"
| "flatten (v # vs) repos =
     (if v = [] then flatten vs repos
      else if length v > 1 then
        (case merge_group v None of Inl e \<Rightarrow> Inl e
         | Inr r \<Rightarrow> flatten vs (case r of None \<Rightarrow> repos | Some x \<Rightarrow> repos @ [x]))
      else flatten vs (repos @ v))"

definition get_repos :: "string list list \<Rightarrow> error + Repodata list" where
  "get_repos repofiles =
     (case index_files repofiles [] of Inl e \<Rightarrow> Inl e
      | Inr ridx \<Rightarrow> flatten (map snd ridx) [])"

section \<open>The stages of \<open>_parse_repo\<close>\<close>

text \<open>
  The values \<open>_parse_repo\<close> computes on the way, each as a function of the line, and the
  name of a flat repository described step by step. They are used to state what
  \<open>parse_repo\<close> returns; \<open>parse_repo_stages\<close> proves that \<open>parse_repo\<close> computes
  exactly these.
\<close>

text \<open>\<^verbatim>\<open>repodata[3:].strip()\<close>: the line without its prefix.\<close>

definition after_prefix :: "string \<Rightarrow> string" where
  "after_prefix line = strip (drop 3 line)"

text \<open>The test for an attribute block: a leading \<open>[\<close> and a \<open>]\<close> somewhere.\<close>

definition has_attr_block :: "string \<Rightarrow> bool" where
  "has_attr_block line =
     (startswith (after_prefix line) ''['' \<and> CHR '']'' \<in> set (after_prefix line))"

text \<open>The text between the leading \<open>[\<close> and the first \<open>]\<close>, and its tokens.\<close>

definition attr_block :: "string \<Rightarrow> string" where
  "attr_block line = takeWhile (\<lambda>c. c \<noteq> CHR '']'') (drop 1 (after_prefix line))"

definition attr_tokens :: "string \<Rightarrow> string list" where
  "attr_tokens line = split '' '' (attrfix_sub (strip (attr_block line)))"

text \<open>A token \<open>key=value\<close> is cut at its first \<open>=\<close>.\<close>

definition attr_key :: "string \<Rightarrow> string" where
  "attr_key t = takeWhile (\<lambda>c. c \<noteq> CHR ''='') t"

definition attr_value :: "string \<Rightarrow> string" where
  "attr_value t = drop 1 (dropWhile (\<lambda>c. c \<noteq> CHR ''='') t)"

text \<open>The dict the tokens fill, in their order.\<close>

definition attrs_of :: "string \<Rightarrow> (string \<times> string) list" where
  "attrs_of line =
     (if has_attr_block line
      then fold (\<lambda>t d. AList.update (attr_key t) (attr_value t) d) (attr_tokens line) []
      else [])"

text \<open>What is parsed after the attribute block: the text between the first \<open>]\<close> and
  the second one (or the end of the line), stripped.\<close>

definition after_attr_block :: "string \<Rightarrow> string" where
  "after_attr_block line =
     (if has_attr_block line
      then strip (takeWhile (\<lambda>c. c \<noteq> CHR '']'')
                   (drop 1 (dropWhile (\<lambda>c. c \<noteq> CHR '']'') (after_prefix line))))
      else after_prefix line)"

text \<open>The URL is the text up to the first space; \<open>after_url\<close> is what follows it.\<close>

definition url_token :: "string \<Rightarrow> string" where
  "url_token line = takeWhile (\<lambda>c. c \<noteq> CHR '' '') (after_attr_block line)"

definition after_url :: "string \<Rightarrow> string" where
  "after_url line = strip (drop (length (url_token line)) (after_attr_block line))"

text \<open>\<open>sep\<close> occurs in \<open>s\<close>: some suffix of \<open>s\<close> starts with it.\<close>

fun occurs :: "string \<Rightarrow> string \<Rightarrow> bool" where
  "occurs sep [] = (sep = [])"
| "occurs sep (c # cs) = (startswith (c # cs) sep \<or> occurs sep cs)"

text \<open>The text after the last occurrence of \<open>sep\<close> in \<open>s\<close>, and the text after its first
  occurrence; \<open>s\<close> itself when \<open>sep\<close> does not occur.\<close>

fun after_last :: "string \<Rightarrow> string \<Rightarrow> string" where
  "after_last sep [] = []"
| "after_last sep (c # cs) =
     (if occurs sep cs then after_last sep cs
      else if startswith (c # cs) sep then drop (length sep) (c # cs)
      else c # cs)"

fun after_first :: "string \<Rightarrow> string \<Rightarrow> string" where
  "after_first sep [] = []"
| "after_first sep (c # cs) =
     (if startswith (c # cs) sep then drop (length sep) (c # cs)
      else if occurs sep cs then after_first sep cs
      else c # cs)"

text \<open>
  The name of a flat repository, step by step: \<open>start\<close> is the part of the URL the name
  is made from; every \<open>/\<close> and every \<open>.\<close> is replaced by \<open>_\<close>, the text is put in
  lower case, leading and trailing \<open>_\<close> are stripped, every \<open>:\<close> is removed.
\<close>

definition name_steps :: "string \<Rightarrow> string" where
  "name_steps start =
     filter (\<lambda>c. c \<noteq> CHR '':'')
       (strip_with (\<lambda>c. c = CHR ''_'')
         (map lower_chr
           (map (\<lambda>c. if c = CHR ''.'' then CHR ''_'' else c)
             (map (\<lambda>c. if c = CHR ''/'' then CHR ''_'' else c) start))))"

text \<open>The name as the specification words it starts after the \<open>scheme://\<close> prefix of the
  URL, that is, after its first \<open>://\<close>.\<close>

definition claimed_flat_name :: "string \<Rightarrow> string" where
  "claimed_flat_name u = name_steps (after_first ''://'' u)"

text \<open>The name that is proved of the code starts after the last \<open>://\<close> of the URL.\<close>

definition spec_flat_name :: "string \<Rightarrow> string" where
  "spec_flat_name u = name_steps (after_last ''://'' u)"

section \<open>What \<open>get_repos\<close> is compared with\<close>

text \<open>
  The lines \<open>_parse_repofile\<close> feeds to \<open>_parse_repo\<close>, in file-then-line order: every
  line of every file, stripped, unless it is empty or starts with \<open>#\<close>.
\<close>

definition declared :: "string list list \<Rightarrow> string list" where
  "declared files = filter (\<lambda>l. l \<noteq> [] \<and> \<not> startswith l ''#'') (map strip (concat files))"

text \<open>The exception of the first line on which \<open>_parse_repo\<close> raises, if there is one.\<close>

fun first_error :: "string list \<Rightarrow> error option" where
  "first_error [] = None"
| "first_error (l # ls) = (case parse_repo l of Inl e \<Rightarrow> Some e | Inr r \<Rightarrow> first_error ls)"

text \<open>The valid records of the lines, in the order of the lines.\<close>

definition records :: "string list \<Rightarrow> Repodata list" where
  "records ls =
     filter is_valid (concat (map (\<lambda>l. case parse_repo l of Inl e \<Rightarrow> [] | Inr r \<Rightarrow> [r]) ls))"

text \<open>
  The same through \<open>_parse_repofile\<close>, file by file: the valid records of all files, or
  the first exception raised (\<open>parsed_records_eq\<close> proves it is the same).
\<close>

fun parsed_records :: "string list list \<Rightarrow> error + Repodata list" where
  "parsed_records [] = Inr []"
| "parsed_records (rf # rfs) =
     (case parse_repofile rf of Inl e \<Rightarrow> Inl e
      | Inr rs \<Rightarrow> (case parsed_records rfs of Inl e \<Rightarrow> Inl e | Inr rs1 \<Rightarrow> Inr (rs @ rs1)))"

text \<open>The distinct elements of a list in the order of their first occurrence.\<close>

function first_seen :: "'a list \<Rightarrow> 'a list" where
  "first_seen [] = []"
| "first_seen (x # xs) = x # first_seen (removeAll x xs)"
  by pat_completeness auto
termination
  by (relation "measure length") (auto simp: less_Suc_eq_le length_removeAll_less_eq)

text \<open>The records of one URL, in the order met, and the fold of \<open>merge\<close> over a group.\<close>

definition group :: "Repodata list \<Rightarrow> string \<Rightarrow> Repodata list" where
  "group recs u = filter (\<lambda>r. url r = u) recs"

definition merged :: "Repodata list \<Rightarrow> Repodata" where
  "merged v = foldl (\<lambda>a x. snd (merge a x)) (hd v) (tl v)"

text \<open>The dict \<open>ridx\<close> after the records \<open>recs\<close> have been indexed.\<close>

definition grouped :: "Repodata list \<Rightarrow> ridx" where
  "grouped recs = map (\<lambda>u. (u, group recs u)) (first_seen (map url recs))"

section \<open>Properties of \<open>Repodata.merge\<close>\<close>

lemma merge_same_url:
  "url a = url b \<Longrightarrow>
   merge a b = (None, a\<lparr>components := sort (remdups (components a @ components b)),
                         trusted := trusted a \<and> trusted b,
                         attrs := dict_update (attrs a) (attrs b)\<rparr>)"
  by (simp add: merge_def Let_def)

lemma merge_diff_url:
  "url a \<noteq> url b \<Longrightarrow> merge a b = (Some (UnableToMerge (url b)), a)"
  by (simp add: merge_def)

lemma dict_update_subset:
  "distinct (map fst d) \<Longrightarrow> set xs \<subseteq> set d \<Longrightarrow>
   fold (\<lambda>kv acc. AList.update (fst kv) (snd kv) acc) xs d = d"
  by (induction xs) (auto simp: update_triv)

lemma dict_update_self: "distinct (map fst d) \<Longrightarrow> dict_update d d = d"
  by (simp add: dict_update_def dict_update_subset)

lemma merge_group_same_url:
  "\<forall>r\<in>set xs. url r = url a \<Longrightarrow>
   \<exists>m. merge_group xs (Some a) = Inr (Some m) \<and> url m = url a \<and>
       trusted m = (trusted a \<and> (\<forall>r\<in>set xs. trusted r))"
proof (induction xs arbitrary: a)
  case Nil
  then show ?case by simp
next
  case (Cons x xs)
  let ?a1 = "snd (merge a x)"
  from Cons.prems have ux: "url a = url x" by simp
  have m: "merge a x = (None, ?a1)" "url ?a1 = url a" "trusted ?a1 = (trusted a \<and> trusted x)"
    using ux by (simp_all add: merge_same_url)
  from Cons.prems m(2) have "\<forall>r\<in>set xs. url r = url ?a1" by simp
  from Cons.IH[OF this] obtain m' where
    "merge_group xs (Some ?a1) = Inr (Some m')" "url m' = url ?a1"
    "trusted m' = (trusted ?a1 \<and> (\<forall>r\<in>set xs. trusted r))" by blast
  moreover have "merge_group (x # xs) (Some a) = merge_group xs (Some ?a1)"
    by (simp add: merge_same_url[OF ux])
  ultimately show ?case using m(2,3) by auto
qed

text \<open>
  C4. When two records have the same URL, \<open>merge\<close> does not raise and leaves in the
  accumulator the sorted list, without duplicates, of the components of both records.
  The witness is the example of the specification: merging the components
  universe, main with main, restricted gives main, restricted, universe.
\<close>

theorem merge_components_union:
  assumes "url a = url b"
  shows "fst (merge a b) = None \<and>
         components (snd (merge a b)) =
           sorted_list_of_set (set (components a) \<union> set (components b)) \<and>
         sorted (components (snd (merge a b))) \<and>
         distinct (components (snd (merge a b))) \<and>
         set (components (snd (merge a b))) = set (components a) \<union> set (components b)"
  using assms
  by (simp add: merge_same_url sorted_list_of_set_sort_remdups[symmetric]
           del: sorted_list_of_set_sort_remdups)

theorem merge_components_union_witness:
  "url (Repodata_init\<lparr>url := ''http://x'', components := [''universe'', ''main'']\<rparr>) =
     url (Repodata_init\<lparr>url := ''http://x'', components := [''main'', ''restricted'']\<rparr>) \<and>
   components
     (snd (merge (Repodata_init\<lparr>url := ''http://x'', components := [''universe'', ''main'']\<rparr>)
                 (Repodata_init\<lparr>url := ''http://x'', components := [''main'', ''restricted'']\<rparr>)))
     = [''main'', ''restricted'', ''universe'']"
  using merge_components_union
    [of "Repodata_init\<lparr>url := ''http://x'', components := [''universe'', ''main'']\<rparr>"
        "Repodata_init\<lparr>url := ''http://x'', components := [''main'', ''restricted'']\<rparr>"]
  by (simp add: Repodata_init_def merge_def dict_update_def)

text \<open>
  C5. Folding a non-empty sequence of records that share a URL with \<open>merge\<close>, as the
  loop of \<open>get_repos\<close> does, never raises, and the \<open>trusted\<close> field of the result is the
  conjunction of the members' \<open>trusted\<close> fields. Folding the same records in any other
  order gives the same \<open>trusted\<close> value.
\<close>

theorem merge_group_trusted_and:
  assumes "rs \<noteq> []" and "\<forall>r\<in>set rs. url r = u" and "mset rs' = mset rs"
  shows "\<exists>m m'. merge_group rs None = Inr (Some m) \<and>
                 merge_group rs' None = Inr (Some m') \<and>
                 trusted m = (\<forall>r\<in>set rs. trusted r) \<and>
                 trusted m' = trusted m"
proof -
  have key: "\<exists>m. merge_group xs None = Inr (Some m) \<and> trusted m = (\<forall>r\<in>set xs. trusted r)"
    if "xs \<noteq> []" "\<forall>r\<in>set xs. url r = u" for xs
  proof (cases xs)
    case Nil
    with that show ?thesis by simp
  next
    case (Cons x ys)
    with that have "\<forall>r\<in>set ys. url r = url x" by simp
    from merge_group_same_url[OF this] Cons show ?thesis by auto
  qed
  from assms(3) have s: "set rs' = set rs" by (rule mset_eq_setD)
  with assms have "rs' \<noteq> []" "\<forall>r\<in>set rs'. url r = u" by auto
  from key[OF this] key[OF assms(1,2)] s show ?thesis by auto
qed

theorem merge_group_trusted_and_witness:
  "[Repodata_init\<lparr>url := ''u'', trusted := True\<rparr>, Repodata_init\<lparr>url := ''u''\<rparr>] \<noteq> [] \<and>
   url (Repodata_init\<lparr>url := ''u'', trusted := True\<rparr>) = ''u'' \<and>
   url (Repodata_init\<lparr>url := ''u''\<rparr>) = ''u'' \<and>
   mset [Repodata_init\<lparr>url := ''u''\<rparr>, Repodata_init\<lparr>url := ''u'', trusted := True\<rparr>] =
     mset [Repodata_init\<lparr>url := ''u'', trusted := True\<rparr>, Repodata_init\<lparr>url := ''u''\<rparr>] \<and>
   (\<exists>m m'.
      merge_group [Repodata_init\<lparr>url := ''u'', trusted := True\<rparr>, Repodata_init\<lparr>url := ''u''\<rparr>] None
        = Inr (Some m) \<and>
      merge_group [Repodata_init\<lparr>url := ''u''\<rparr>, Repodata_init\<lparr>url := ''u'', trusted := True\<rparr>] None
        = Inr (Some m') \<and>
      \<not> trusted m \<and> \<not> trusted m')"
  using merge_group_trusted_and
    [of "[Repodata_init\<lparr>url := ''u'', trusted := True\<rparr>, Repodata_init\<lparr>url := ''u''\<rparr>]" "''u''"
        "[Repodata_init\<lparr>url := ''u''\<rparr>, Repodata_init\<lparr>url := ''u'', trusted := True\<rparr>]"]
  by (simp add: Repodata_init_def merge_def dict_update_def)

text \<open>
  C6. \<open>merge\<close> raises exactly when the URLs of the two records differ. When it raises,
  the accumulator is the record it was before the call. When the URLs are equal it does
  not raise, and the fields \<open>url\<close>, \<open>type\<close>, \<open>name\<close> and \<open>is_flat\<close> of the accumulator
  are unchanged.
\<close>

theorem merge_raises_iff_urls_differ:
  "(fst (merge a b) \<noteq> None \<longleftrightarrow> url a \<noteq> url b) \<and>
   (url a \<noteq> url b \<longrightarrow> merge a b = (Some (UnableToMerge (url b)), a)) \<and>
   (url a = url b \<longrightarrow>
      fst (merge a b) = None \<and> url (snd (merge a b)) = url a \<and>
      type (snd (merge a b)) = type a \<and> name (snd (merge a b)) = name a \<and>
      is_flat (snd (merge a b)) = is_flat a)"
  by (simp add: merge_def Let_def)

theorem merge_raises_iff_urls_differ_witness:
  "url (Repodata_init\<lparr>url := ''http://x'', name := ''n'', components := [''b'']\<rparr>)
     \<noteq> url (Repodata_init\<lparr>url := ''http://y'', components := [''a'']\<rparr>) \<and>
   merge (Repodata_init\<lparr>url := ''http://x'', name := ''n'', components := [''b'']\<rparr>)
         (Repodata_init\<lparr>url := ''http://y'', components := [''a'']\<rparr>)
     = (Some (UnableToMerge ''http://y''),
        Repodata_init\<lparr>url := ''http://x'', name := ''n'', components := [''b'']\<rparr>) \<and>
   url (Repodata_init\<lparr>url := ''http://x'', name := ''n'', components := [''b'']\<rparr>)
     = url (Repodata_init\<lparr>url := ''http://x'', components := [''a'']\<rparr>) \<and>
   fst (merge (Repodata_init\<lparr>url := ''http://x'', name := ''n'', components := [''b'']\<rparr>)
              (Repodata_init\<lparr>url := ''http://x'', components := [''a'']\<rparr>)) = None \<and>
   name (snd (merge (Repodata_init\<lparr>url := ''http://x'', name := ''n'', components := [''b'']\<rparr>)
                    (Repodata_init\<lparr>url := ''http://x'', components := [''a'']\<rparr>))) = ''n''"
  using
    merge_raises_iff_urls_differ
      [of "Repodata_init\<lparr>url := ''http://x'', name := ''n'', components := [''b'']\<rparr>"
          "Repodata_init\<lparr>url := ''http://y'', components := [''a'']\<rparr>"]
    merge_raises_iff_urls_differ
      [of "Repodata_init\<lparr>url := ''http://x'', name := ''n'', components := [''b'']\<rparr>"
          "Repodata_init\<lparr>url := ''http://x'', components := [''a'']\<rparr>"]
  by (simp add: Repodata_init_def)

text \<open>
  C7. Merging a record with itself does not raise and changes no field but
  \<open>components\<close>, which afterwards holds the same component names with no duplicate
  (and sorted). The hypothesis says that \<open>attrs\<close> is a dict: its keys are distinct.
\<close>

theorem merge_self:
  assumes "distinct (map fst (attrs a))"
  shows "fst (merge a a) = None \<and>
         snd (merge a a) = a\<lparr>components := components (snd (merge a a))\<rparr> \<and>
         distinct (components (snd (merge a a))) \<and>
         set (components (snd (merge a a))) = set (components a) \<and>
         sorted (components (snd (merge a a)))"
  using assms by (simp add: merge_same_url dict_update_self)

theorem merge_self_witness:
  "distinct (map fst (attrs (Repodata_init\<lparr>url := ''http://x'', name := ''n'',
       components := [''main'', ''contrib'', ''main''], attrs := [(''arch'', ''amd64'')]\<rparr>))) \<and>
   snd (merge (Repodata_init\<lparr>url := ''http://x'', name := ''n'',
                 components := [''main'', ''contrib'', ''main''], attrs := [(''arch'', ''amd64'')]\<rparr>)
              (Repodata_init\<lparr>url := ''http://x'', name := ''n'',
                 components := [''main'', ''contrib'', ''main''], attrs := [(''arch'', ''amd64'')]\<rparr>))
     = Repodata_init\<lparr>url := ''http://x'', name := ''n'',
         components := [''contrib'', ''main''], attrs := [(''arch'', ''amd64'')]\<rparr>"
  using merge_self
    [of "Repodata_init\<lparr>url := ''http://x'', name := ''n'',
           components := [''main'', ''contrib'', ''main''], attrs := [(''arch'', ''amd64'')]\<rparr>"]
  by (simp add: Repodata_init_def merge_def dict_update_def)

section \<open>Properties of the string primitives\<close>

lemma startswith_single: "startswith (c # cs) [d] = (c = d)"
  by (simp add: startswith_def)

lemma split_not_Nil: "split sep s \<noteq> []"
  by (induction s) (simp_all add: Let_def)

lemma split1_not_Nil: "split1 sep s \<noteq> []"
  by (induction s) (simp_all add: Let_def)

lemma split_chr_Cons:
  "split [d] (c # cs) =
     (if c = d then [] # split [d] cs else (c # hd (split [d] cs)) # tl (split [d] cs))"
  by (simp add: startswith_single Let_def)

lemma split_chr_notin: "d \<notin> set a \<Longrightarrow> split [d] a = [a]"
  by (induction a) (auto simp add: startswith_single Let_def)

lemma split_chr_append: "d \<notin> set a \<Longrightarrow> split [d] (a @ d # b) = a # split [d] b"
  by (induction a) (auto simp add: startswith_single Let_def)

lemma length_split_chr: "length (split [d] s) = Suc (length (filter (\<lambda>c. c = d) s))"
proof (induction s)
  case Nil
  then show ?case by simp
next
  case (Cons c cs)
  have "split [d] cs \<noteq> []" by (rule split_not_Nil)
  then have "length (tl (split [d] cs)) = length (split [d] cs) - 1" by simp
  with Cons show ?case by (simp add: startswith_single Let_def)
qed

lemma length_split_chr_less2: "(length (split [d] s) < 2) = (d \<notin> set s)"
  by (auto simp add: length_split_chr filter_empty_conv)

lemma hd_split_chr: "hd (split [d] s) = takeWhile (\<lambda>c. c \<noteq> d) s"
  by (induction s) (simp_all add: startswith_single Let_def)

lemma split1_chr:
  "split1 [d] s =
     (if d \<in> set s then [takeWhile (\<lambda>c. c \<noteq> d) s, tl (dropWhile (\<lambda>c. c \<noteq> d) s)] else [s])"
  by (induction s) (auto simp add: startswith_single Let_def)

lemma join_split_chr: "join [e] (split [d] s) = map (\<lambda>c. if c = d then e else c) s"
proof (induction s)
  case Nil
  then show ?case by simp
next
  case (Cons c cs)
  obtain p ps where ps: "split [d] cs = p # ps"
    using split_not_Nil[of "[d]" cs] by (cases "split [d] cs") auto
  have j: "join [e] ((c # p) # ps) = c # join [e] (p # ps)"
    by (cases ps) simp_all
  have j0: "join [e] ([] # p # ps) = e # join [e] (p # ps)"
    by simp
  from Cons ps j j0 show ?case by (simp add: startswith_single Let_def)
qed

lemma replace_chr_chr: "replace [d] [e] s = map (\<lambda>c. if c = d then e else c) s"
  by (induction s) (simp_all add: startswith_single)

lemma replace_chr_nil: "replace [d] [] s = filter (\<lambda>c. c \<noteq> d) s"
  by (induction s) (simp_all add: startswith_single)

lemma item_0: "xs \<noteq> [] \<Longrightarrow> item xs 0 = Inr (hd xs)"
  by (cases xs) (simp_all add: item_def)

lemma item_last: "xs \<noteq> [] \<Longrightarrow> item xs (- 1) = Inr (last xs)"
  by (cases xs rule: rev_cases) (simp_all add: item_def nat_add_distrib)

lemma item_1: "item xs 1 = (if length xs < 2 then Inl IndexError else Inr (xs ! 1))"
  by (auto simp add: item_def)

section \<open>What \<open>_parse_repo\<close> computes\<close>

lemma after_last_none: "\<not> occurs sep s \<Longrightarrow> after_last sep s = s"
  by (induction s) auto

lemma occurs_append: "occurs sep (p @ sep @ t)"
proof (induction p)
  case Nil
  have "startswith (sep @ t) sep" by (simp add: startswith_def)
  then show ?case by (cases "sep @ t") auto
next
  case (Cons c p)
  then show ?case by simp
qed

lemma after_last_scheme:
  "\<not> occurs ''://'' t \<Longrightarrow> after_last ''://'' (p @ ''://'' @ t) = t"
proof (induction p)
  case Nil
  then show ?case by (simp add: startswith_def)
next
  case (Cons c p)
  have "occurs ''://'' (p @ ''://'' @ t)" by (rule occurs_append)
  with Cons show ?case by simp
qed

lemma split_no_occurrence: "sep \<noteq> [] \<Longrightarrow> \<not> occurs sep s \<Longrightarrow> split sep s = [s]"
  by (induction s) (auto simp add: Let_def)

lemma split_occurrence: "sep \<noteq> [] \<Longrightarrow> occurs sep s \<Longrightarrow> 2 \<le> length (split sep s)"
proof (induction s)
  case Nil
  then show ?case by simp
next
  case (Cons c cs)
  have ne: "split sep t \<noteq> []" for t by (rule split_not_Nil)
  show ?case
  proof (cases "startswith (c # cs) sep")
    case True
    then show ?thesis using ne[of "drop (length sep - 1) cs"]
      by (cases "split sep (drop (length sep - 1) cs)") simp_all
  next
    case False
    with Cons.prems have "occurs sep cs" by simp
    from Cons.IH[OF Cons.prems(1) this] False show ?thesis
      by (cases "split sep cs") (simp_all add: Let_def)
  qed
qed

lemma last_split_scheme_aux:
  "sep = ''://'' \<Longrightarrow> last (split sep s) = after_last sep s"
proof (induction sep s rule: split.induct)
  case (1 sep)
  then show ?case by simp
next
  case (2 sep c cs)
  note sep = \<open>sep = ''://''\<close>
  have ne: "split ''://'' t \<noteq> []" for t by (rule split_not_Nil)
  show ?case
  proof (cases "startswith (c # cs) sep")
    case True
    then have c: "c = CHR '':''" and t2: "take (Suc (Suc 0)) cs = ''//''"
      by (simp_all add: sep startswith_def)
    define rest where "rest = drop (Suc (Suc 0)) cs"
    have "cs = take (Suc (Suc 0)) cs @ drop (Suc (Suc 0)) cs"
      by (simp only: append_take_drop_id)
    then have "cs = ''//'' @ rest" by (simp only: t2 rest_def)
    with c have cs: "c = CHR '':''" "cs = CHR ''/'' # CHR ''/'' # rest" by simp_all
    have "last (split sep (drop (length sep - 1) cs)) = after_last sep (drop (length sep - 1) cs)"
      using True "2.prems" by (rule "2.IH"(1))
    then have ih: "last (split ''://'' rest) = after_last ''://'' rest"
      by (simp add: sep cs)
    have sp: "split ''://'' (c # cs) = [] # split ''://'' rest"
      by (simp add: cs startswith_def)
    have l: "last (split ''://'' (c # cs)) = after_last ''://'' rest"
      unfolding sp using ne[of rest] ih by simp
    have o: "occurs ''://'' cs = occurs ''://'' rest" by (simp add: cs startswith_def)
    have "after_last ''://'' (c # cs) = after_last ''://'' rest"
    proof (cases "occurs ''://'' rest")
      case True
      then show ?thesis by (simp add: cs startswith_def)
    next
      case False
      then show ?thesis using after_last_none[OF False] by (simp add: cs startswith_def)
    qed
    with l show ?thesis by (simp only: sep)
  next
    case False
    have ih: "last (split sep cs) = after_last sep cs"
      using False "2.prems" by (rule "2.IH"(2))
    have ns: "\<not> startswith (c # cs) ''://''" using False unfolding sep .
    have sp: "split ''://'' (c # cs) = (c # hd (split ''://'' cs)) # tl (split ''://'' cs)"
      using ns by (simp add: Let_def)
    show ?thesis
    proof (cases "occurs ''://'' cs")
      case True
      have "2 \<le> length (split ''://'' cs)" by (rule split_occurrence[OF _ True]) simp
      then have t: "tl (split ''://'' cs) \<noteq> []"
        by (cases "split ''://'' cs") auto
      then have "last (split ''://'' (c # cs)) = last (split ''://'' cs)"
        unfolding sp by (simp add: last_tl)
      also have "\<dots> = after_last ''://'' cs" using ih by (simp only: sep)
      also have "\<dots> = after_last ''://'' (c # cs)" using True by simp
      finally show ?thesis by (simp only: sep)
    next
      case nocc: False
      have "split ''://'' cs = [cs]" by (rule split_no_occurrence[OF _ nocc]) simp
      then have "last (split ''://'' (c # cs)) = c # cs" unfolding sp by simp
      moreover have "after_last ''://'' (c # cs) = c # cs" using nocc ns by simp
      ultimately show ?thesis by (simp only: sep)
    qed
  qed
qed

lemma last_split_scheme: "last (split ''://'' s) = after_last ''://'' s"
  by (rule last_split_scheme_aux) simp

lemma set_strip_with: "set (strip_with P s) \<subseteq> set s"
proof
  fix x assume "x \<in> set (strip_with P s)"
  then have "x \<in> set (dropWhile P (rev (dropWhile P s)))" by (simp add: strip_with_def)
  then have "x \<in> set (rev (dropWhile P s))" by (rule set_dropWhileD)
  then have "x \<in> set (dropWhile P s)" by simp
  then show "x \<in> set s" by (rule set_dropWhileD)
qed

lemma lower_chr_not_upper:
  "\<not> (65 \<le> (of_char (lower_chr c) :: nat) \<and> (of_char (lower_chr c) :: nat) \<le> 90)"
  by (auto simp add: lower_chr_def Let_def)

lemma lower_chr_below: "(of_char (lower_chr c) :: nat) < 65 \<Longrightarrow> lower_chr c = c"
  by (auto simp add: lower_chr_def Let_def split: if_splits)

lemma name_steps_chars:
  assumes "x \<in> set (name_steps s)"
  shows "x \<noteq> CHR '':'' \<and> x \<noteq> CHR ''/'' \<and> x \<noteq> CHR ''.'' \<and> \<not> (CHR ''A'' \<le> x \<and> x \<le> CHR ''Z'')"
proof -
  define ys where "ys = map (\<lambda>c. if c = CHR ''.'' then CHR ''_'' else c)
                          (map (\<lambda>c. if c = CHR ''/'' then CHR ''_'' else c) s)"
  from assms have "x \<in> set (filter (\<lambda>c. c \<noteq> CHR '':'')
      (strip_with (\<lambda>c. c = CHR ''_'') (map lower_chr ys)))"
    unfolding name_steps_def ys_def .
  then have colon: "x \<noteq> CHR '':''"
    and st: "x \<in> set (strip_with (\<lambda>c. c = CHR ''_'') (map lower_chr ys))"
    by simp_all
  from st set_strip_with have "x \<in> set (map lower_chr ys)" by blast
  then obtain y where y: "y \<in> set ys" "lower_chr y = x" by auto
  have ny: "y \<noteq> CHR ''/''" "y \<noteq> CHR ''.''"
    using y(1) unfolding ys_def by (auto split: if_splits)
  have low: "lower_chr y = y" if "(of_char x :: nat) < 65"
    using that lower_chr_below[of y] by (simp only: y(2))
  have "(of_char CHR ''/'' :: nat) < 65" "(of_char CHR ''.'' :: nat) < 65" by simp_all
  then have "x \<noteq> CHR ''/''" "x \<noteq> CHR ''.''"
    using low ny y(2) by metis+
  moreover have "\<not> (65 \<le> (of_char x :: nat) \<and> (of_char x :: nat) \<le> 90)"
    using lower_chr_not_upper[of y] unfolding y(2) .
  then have "\<not> (CHR ''A'' \<le> x \<and> x \<le> CHR ''Z'')"
    by (simp add: less_eq_char_def)
  ultimately show ?thesis using colon by simp
qed

lemma flat_name_spec: "flat_name u = Inr (spec_flat_name u)"
  by (simp add: flat_name_def spec_flat_name_def name_steps_def item_last split_not_Nil
      last_split_scheme join_split_chr replace_chr_chr replace_chr_nil lower_def)

lemma parse_attrs_eq:
  "parse_attrs ts d =
     (if \<exists>t\<in>set ts. CHR ''='' \<notin> set t then Inl IndexError
      else Inr (fold (\<lambda>t d. AList.update (attr_key t) (attr_value t) d) ts d))"
proof (induction ts arbitrary: d)
  case Nil
  then show ?case by simp
next
  case (Cons t ts)
  show ?case
  proof (cases "CHR ''='' \<in> set t")
    case True
    then have "split1 ''='' t = [attr_key t, attr_value t]"
      by (simp add: split1_chr attr_key_def attr_value_def drop_Suc)
    with True Cons show ?thesis by (simp add: item_def)
  next
    case False
    then have "split1 ''='' t = [t]" by (simp add: split1_chr)
    with False show ?thesis by (simp add: item_def)
  qed
qed

lemma parse_url_name_eq:
  "parse_url_name cp r rd =
     (let u = takeWhile (\<lambda>c. c \<noteq> CHR '' '') rd;
          rest = strip (drop (length u) rd)
      in if rest = ''/'' then Inr (r\<lparr>url := u, is_flat := True, name := spec_flat_name u\<rparr>)
         else if length (split '' '' rest) < 2 then Inl (UnknownRepositoryFormat cp)
         else Inr (r\<lparr>url := u, name := hd (split '' '' rest),
                      components := tl (split '' '' rest)\<rparr>))"
proof -
  have u: "item (split '' '' rd) 0 = Inr (takeWhile (\<lambda>c. c \<noteq> CHR '' '') rd)"
    by (simp add: item_0 split_not_Nil hd_split_chr)
  show ?thesis
    by (auto simp add: parse_url_name_def u flat_name_spec Let_def split: list.splits)
qed

lemma split_bracket_1:
  assumes "CHR '']'' \<in> set s"
  shows "item (split '']'' s) 1 =
           Inr (takeWhile (\<lambda>c. c \<noteq> CHR '']'') (drop 1 (dropWhile (\<lambda>c. c \<noteq> CHR '']'') s)))"
proof -
  let ?a = "takeWhile (\<lambda>c. c \<noteq> CHR '']'') s" and ?b = "dropWhile (\<lambda>c. c \<noteq> CHR '']'') s"
  from assms have "?b \<noteq> []" by simp
  moreover have "hd ?b = CHR '']''" using assms hd_dropWhile[of "\<lambda>c. c \<noteq> CHR '']''" s] by simp
  ultimately have b: "?b = CHR '']'' # tl ?b" by (cases ?b) auto
  have "s = ?a @ ?b" by simp
  with b have s: "s = ?a @ CHR '']'' # tl ?b" by simp
  have "CHR '']'' \<notin> set ?a" by (auto dest: set_takeWhileD)
  then have "split '']'' (?a @ CHR '']'' # tl ?b) = ?a # split '']'' (tl ?b)"
    by (rule split_chr_append)
  with s have sp: "split '']'' s = ?a # split '']'' (tl ?b)" by simp
  have ne: "split '']'' (tl ?b) \<noteq> []" by (rule split_not_Nil)
  have "item (split '']'' s) 1 = Inr (hd (split '']'' (tl ?b)))"
    using ne by (cases "split '']'' (tl ?b)") (simp_all add: sp item_def)
  then show ?thesis by (simp add: hd_split_chr drop_Suc)
qed

lemma parse_repo_stages:
  "parse_repo line =
     (if \<not> startswith line ''deb '' then Inr Repodata_init
      else if has_attr_block line \<and> (\<exists>t\<in>set (attr_tokens line). CHR ''='' \<notin> set t)
        then Inl IndexError
      else if after_url line = ''/''
        then Inr \<lparr>type = ''apt-deb'', components = [], url = url_token line, trusted = False,
                  name = spec_flat_name (url_token line), attrs = attrs_of line, is_flat = True\<rparr>
      else if length (split '' '' (after_url line)) < 2
        then Inl (UnknownRepositoryFormat line)
      else Inr \<lparr>type = ''apt-deb'', components = tl (split '' '' (after_url line)),
                url = url_token line, trusted = False,
                name = hd (split '' '' (after_url line)), attrs = attrs_of line,
                is_flat = False\<rparr>)"
proof (cases "startswith line ''deb ''")
  case False
  then show ?thesis by (simp add: parse_repo_def)
next
  case deb: True
  show ?thesis
  proof (cases "has_attr_block line")
    case False
    then have "\<not> (startswith (strip (drop 3 line)) ''['' \<and> CHR '']'' \<in> set (strip (drop 3 line)))"
      by (simp add: has_attr_block_def after_prefix_def)
    with deb have p: "parse_repo line =
        parse_url_name line (Repodata_init\<lparr>type := ''apt-deb''\<rparr>) (after_prefix line)"
      unfolding parse_repo_def Let_def after_prefix_def by auto
    from False have s: "after_attr_block line = after_prefix line" "attrs_of line = []"
      by (simp_all add: after_attr_block_def attrs_of_def)
    from deb False show ?thesis
      by (simp add: p parse_url_name_eq url_token_def after_url_def s Repodata_init_def Let_def)
  next
    case True
    then have br: "CHR '']'' \<in> set (strip (drop 3 line))"
      and c: "startswith (strip (drop 3 line)) ''['' \<and> CHR '']'' \<in> set (strip (drop 3 line))"
      by (simp_all add: has_attr_block_def after_prefix_def)
    have i0: "item (split '']'' (drop (Suc 0) (strip (drop 3 line)))) 0 = Inr (attr_block line)"
      by (simp add: item_0 split_not_Nil hd_split_chr attr_block_def after_prefix_def)
    have i1: "item (split '']'' (strip (drop 3 line))) 1 =
        Inr (takeWhile (\<lambda>c. c \<noteq> CHR '']'')
              (drop (Suc 0) (dropWhile (\<lambda>c. c \<noteq> CHR '']'') (strip (drop 3 line)))))"
      using split_bracket_1[OF br] by simp
    from True have s: "after_attr_block line =
        strip (takeWhile (\<lambda>c. c \<noteq> CHR '']'')
                (drop (Suc 0) (dropWhile (\<lambda>c. c \<noteq> CHR '']'') (strip (drop 3 line)))))"
      by (simp add: after_attr_block_def after_prefix_def)
    have p: "parse_repo line =
        (case parse_attrs (attr_tokens line) [] of Inl e \<Rightarrow> Inl e
         | Inr a \<Rightarrow> parse_url_name line (Repodata_init\<lparr>type := ''apt-deb'', attrs := a\<rparr>)
                      (after_attr_block line))"
      unfolding parse_repo_def Let_def using deb c
      by (simp add: i0 i1 s attr_tokens_def Repodata_init_def split: sum.splits)
    from deb True show ?thesis
      by (simp add: p parse_attrs_eq parse_url_name_eq url_token_def after_url_def attrs_of_def
          Repodata_init_def Let_def)
  qed
qed

section \<open>The claims about \<open>_parse_repo\<close>\<close>

lemmas line_eval =
  parse_repo_def parse_url_name_def flat_name_def item_def startswith_def strip_def
  strip_with_def isspace_def Repodata_init_def lower_def lower_chr_def Let_def
  after_prefix_def has_attr_block_def attr_block_def attr_tokens_def attr_key_def
  attr_value_def attrs_of_def after_attr_block_def url_token_def after_url_def
  name_steps_def spec_flat_name_def claimed_flat_name_def

text \<open>
  C1. As stated the claim fails: \<open>Repodata.__init__\<close> sets \<open>trusted\<close> to \<open>False\<close> and
  \<open>_parse_repo\<close> never assigns the field, so the record of a parsed line is not trusted,
  whatever its attributes say.
\<close>

theorem parse_repo_trusted_counterexample:
  "parse_repo ''deb [trusted=yes] http://x n c'' =
     Inr \<lparr>type = ''apt-deb'', components = [''c''], url = ''http://x'', trusted = False,
          name = ''n'', attrs = [(''trusted'', ''yes'')], is_flat = False\<rparr>"
  by (simp add: line_eval)

text \<open>
  C1, amended. Every record \<open>_parse_repo\<close> returns has \<open>trusted = False\<close>, the value the
  constructor gives: the parser does not read trust from the attributes. \<open>merge\<close> never
  turns the flag on: the accumulator is trusted after a merge only if it was before.
\<close>

theorem parse_repo_never_trusted:
  "(parse_repo line = Inr r \<longrightarrow> \<not> trusted r) \<and>
   (trusted (snd (merge a b)) \<longrightarrow> trusted a)"
proof -
  have "\<not> trusted r" if "parse_repo line = Inr r"
    using that by (auto simp add: parse_repo_stages Repodata_init_def split: if_splits)
  moreover have "trusted a" if "trusted (snd (merge a b))"
    using that by (auto simp add: merge_def Let_def split: if_splits)
  ultimately show ?thesis by blast
qed

theorem parse_repo_never_trusted_witness:
  "parse_repo ''deb http://x n c'' =
     Inr \<lparr>type = ''apt-deb'', components = [''c''], url = ''http://x'', trusted = False,
          name = ''n'', attrs = [], is_flat = False\<rparr> \<and>
   \<not> trusted \<lparr>type = ''apt-deb'', components = [''c''], url = ''http://x'', trusted = False,
          name = ''n'', attrs = [], is_flat = False\<rparr> \<and>
   trusted (snd (merge (Repodata_init\<lparr>url := ''u'', trusted := True\<rparr>)
                       (Repodata_init\<lparr>url := ''u'', trusted := True\<rparr>))) \<and>
   trusted (Repodata_init\<lparr>url := ''u'', trusted := True\<rparr>)"
  using parse_repo_never_trusted
    [of "''deb http://x n c''"
        "\<lparr>type = ''apt-deb'', components = [''c''], url = ''http://x'', trusted = False,
          name = ''n'', attrs = [], is_flat = False\<rparr>"
        "Repodata_init\<lparr>url := ''u'', trusted := True\<rparr>"
        "Repodata_init\<lparr>url := ''u'', trusted := True\<rparr>"]
  by (simp add: line_eval merge_def dict_update_def)

text \<open>
  C2. As stated the claim fails twice: a token of the attribute block without \<open>=\<close>
  makes \<^verbatim>\<open>kw[1]\<close> raise \<open>IndexError\<close> although two tokens follow the URL; and after
  an attribute block only the text up to the next \<open>]\<close> is read, so that a line with three
  tokens after its URL raises when a \<open>]\<close> stands in the first of them.
\<close>

theorem parse_repo_raises_counterexample:
  "parse_repo ''deb [foo] http://x a b'' = Inl IndexError \<and>
   after_url ''deb [foo] http://x a b'' = ''a b'' \<and>
   length (split '' '' (after_url ''deb [foo] http://x a b'')) = 2 \<and>
   parse_repo ''deb [a=b] http://x n] c d'' =
     Inl (UnknownRepositoryFormat ''deb [a=b] http://x n] c d'') \<and>
   attr_tokens ''deb [a=b] http://x n] c d'' = [''a=b''] \<and>
   split '' '' ''n] c d'' = [''n]'', ''c'', ''d'']"
  by (simp add: line_eval)

text \<open>
  C2, amended. \<open>_parse_repo\<close> raises exactly on the lines that start with \<open>deb \<close> and
  either have an attribute block one of whose tokens lacks \<open>=\<close> (then \<open>IndexError\<close>), or
  are not of the flat form and have fewer than two tokens, split at single spaces, after the
  URL in the text that is read (then the exception \<open>Unknown repository format\<close> with the
  line). The text that is read is \<open>after_attr_block\<close>: the line without \<open>deb\<close>,
  stripped, and when it has an attribute block only the part between the first \<open>]\<close> and
  the next \<open>]\<close> (or the end of the line), stripped; the URL is that text up to its first
  space and \<open>after_url\<close> is the rest, stripped. On every other line a record is
  returned. The witness has the line \<open>deb http://x/y\<close> and a line cut at a second \<open>]\<close>.
\<close>

theorem parse_repo_raises_iff:
  "((\<exists>e. parse_repo line = Inl e) \<longleftrightarrow>
      startswith line ''deb '' \<and>
      ((has_attr_block line \<and> (\<exists>t\<in>set (attr_tokens line). CHR ''='' \<notin> set t)) \<or>
       (after_url line \<noteq> ''/'' \<and> length (split '' '' (after_url line)) < 2))) \<and>
   (parse_repo line = Inl IndexError \<longleftrightarrow>
      startswith line ''deb '' \<and> has_attr_block line \<and>
      (\<exists>t\<in>set (attr_tokens line). CHR ''='' \<notin> set t)) \<and>
   (parse_repo line = Inl (UnknownRepositoryFormat line) \<longleftrightarrow>
      startswith line ''deb '' \<and>
      \<not> (has_attr_block line \<and> (\<exists>t\<in>set (attr_tokens line). CHR ''='' \<notin> set t)) \<and>
      after_url line \<noteq> ''/'' \<and> length (split '' '' (after_url line)) < 2)"
  by (auto simp add: parse_repo_stages)

theorem parse_repo_raises_iff_witness:
  "startswith ''deb http://x/y'' ''deb '' \<and>
   after_url ''deb http://x/y'' \<noteq> ''/'' \<and>
   length (split '' '' (after_url ''deb http://x/y'')) < 2 \<and>
   parse_repo ''deb http://x/y'' = Inl (UnknownRepositoryFormat ''deb http://x/y'') \<and>
   startswith ''deb [a=b] http://x n] c d'' ''deb '' \<and>
   after_attr_block ''deb [a=b] http://x n] c d'' = ''http://x n'' \<and>
   after_url ''deb [a=b] http://x n] c d'' = ''n'' \<and>
   length (split '' '' (after_url ''deb [a=b] http://x n] c d'')) < 2 \<and>
   parse_repo ''deb [a=b] http://x n] c d'' =
     Inl (UnknownRepositoryFormat ''deb [a=b] http://x n] c d'')"
proof -
  have goal: ?thesis by (simp add: line_eval)
  from parse_repo_raises_iff [of "''deb http://x/y''"]
    parse_repo_raises_iff [of "''deb [a=b] http://x n] c d''"]
  show ?thesis by - (rule goal)
qed

text \<open>
  C8. As stated the claim fails for a URL with a second \<open>://\<close>: the code takes the text
  after the last \<open>://\<close>, not the text after the scheme prefix, so the proxy and its port
  are lost from the name.
\<close>

theorem flat_line_name_counterexample:
  "parse_repo ''deb http://proxy:3142/http://deb.example.org/debian /'' =
     Inr \<lparr>type = ''apt-deb'', components = [],
          url = ''http://proxy:3142/http://deb.example.org/debian'', trusted = False,
          name = ''deb_example_org_debian'', attrs = [], is_flat = True\<rparr> \<and>
   claimed_flat_name ''http://proxy:3142/http://deb.example.org/debian'' =
     ''proxy3142_http__deb_example_org_debian''"
  by (simp add: line_eval)

text \<open>
  C8, amended. For a line of the flat form (it starts with \<open>deb \<close>, its attribute block,
  if any, is well formed, and the text after the URL is \<open>/\<close>) \<open>_parse_repo\<close> returns a
  flat record without components whose name is made from the URL alone, so that equal URLs
  give equal names: the text after the last \<open>://\<close> of the URL (the whole URL when it has
  none; \<open>t\<close> when the URL is \<open>p://t\<close> and \<open>://\<close> does not occur in \<open>t\<close>), with every
  \<open>/\<close> and \<open>.\<close> replaced by \<open>_\<close>, in lower case, stripped of leading and trailing
  \<open>_\<close>, without \<open>:\<close>. The name has no \<open>/\<close>, no \<open>.\<close>, no \<open>:\<close> and no letter
  \<open>A\<close>..\<open>Z\<close>. The witness is the example of the specification,
  \<open>http://archive.example.com/debian\<close> giving \<open>archive_example_com_debian\<close>, and a URL
  with capital letters and a port.
\<close>

theorem flat_line_name:
  assumes "startswith line ''deb ''"
    and "\<not> (has_attr_block line \<and> (\<exists>t\<in>set (attr_tokens line). CHR ''='' \<notin> set t))"
    and "after_url line = ''/''"
  shows "\<exists>r. parse_repo line = Inr r \<and> is_flat r \<and> components r = [] \<and>
             url r = url_token line \<and>
             name r = name_steps (after_last ''://'' (url r)) \<and>
             (\<forall>c\<in>set (name r).
                c \<noteq> CHR ''/'' \<and> c \<noteq> CHR ''.'' \<and> c \<noteq> CHR '':'' \<and>
                \<not> (CHR ''A'' \<le> c \<and> c \<le> CHR ''Z'')) \<and>
             (\<not> occurs ''://'' (url r) \<longrightarrow> after_last ''://'' (url r) = url r) \<and>
             (url r = p @ ''://'' @ t \<and> \<not> occurs ''://'' t
                \<longrightarrow> after_last ''://'' (url r) = t)"
proof -
  let ?r = "\<lparr>type = ''apt-deb'', components = [], url = url_token line, trusted = False,
            name = spec_flat_name (url_token line), attrs = attrs_of line, is_flat = True\<rparr>"
  from assms have p: "parse_repo line = Inr ?r"
    by (simp only: parse_repo_stages not_True_eq_False if_True if_False simp_thms)
  have n: "name ?r = name_steps (after_last ''://'' (url ?r))"
    by (simp add: spec_flat_name_def)
  have c: "\<forall>c\<in>set (name ?r).
      c \<noteq> CHR ''/'' \<and> c \<noteq> CHR ''.'' \<and> c \<noteq> CHR '':'' \<and> \<not> (CHR ''A'' \<le> c \<and> c \<le> CHR ''Z'')"
    using name_steps_chars by (auto simp add: spec_flat_name_def)
  have a: "\<not> occurs ''://'' (url ?r) \<longrightarrow> after_last ''://'' (url ?r) = url ?r"
    by (simp add: after_last_none)
  have b: "url ?r = p @ ''://'' @ t \<and> \<not> occurs ''://'' t \<longrightarrow> after_last ''://'' (url ?r) = t"
    using after_last_scheme[of t p] by auto
  have "is_flat ?r \<and> components ?r = [] \<and> url ?r = url_token line" by simp
  with p n c a b show ?thesis by blast
qed

theorem flat_line_name_witness:
  "startswith ''deb http://archive.example.com/debian /'' ''deb '' \<and>
   \<not> has_attr_block ''deb http://archive.example.com/debian /'' \<and>
   after_url ''deb http://archive.example.com/debian /'' = ''/'' \<and>
   \<not> occurs ''://'' ''archive.example.com/debian'' \<and>
   parse_repo ''deb http://archive.example.com/debian /'' =
     Inr \<lparr>type = ''apt-deb'', components = [], url = ''http://archive.example.com/debian'',
          trusted = False, name = ''archive_example_com_debian'', attrs = [], is_flat = True\<rparr> \<and>
   after_last ''://'' ''http://archive.example.com/debian'' = ''archive.example.com/debian'' \<and>
   startswith ''deb HTTP://Archive.Example.COM:8080/Debian /'' ''deb '' \<and>
   \<not> has_attr_block ''deb HTTP://Archive.Example.COM:8080/Debian /'' \<and>
   after_url ''deb HTTP://Archive.Example.COM:8080/Debian /'' = ''/'' \<and>
   \<not> occurs ''://'' ''Archive.Example.COM:8080/Debian'' \<and>
   parse_repo ''deb HTTP://Archive.Example.COM:8080/Debian /'' =
     Inr \<lparr>type = ''apt-deb'', components = [], url = ''HTTP://Archive.Example.COM:8080/Debian'',
          trusted = False, name = ''archive_example_com8080_debian'', attrs = [],
          is_flat = True\<rparr>"
proof -
  have a: "startswith ''deb http://archive.example.com/debian /'' ''deb ''"
    "\<not> has_attr_block ''deb http://archive.example.com/debian /''"
    "after_url ''deb http://archive.example.com/debian /'' = ''/''"
    "\<not> occurs ''://'' ''archive.example.com/debian''"
    by (simp_all add: line_eval)
  have b: "startswith ''deb HTTP://Archive.Example.COM:8080/Debian /'' ''deb ''"
    "\<not> has_attr_block ''deb HTTP://Archive.Example.COM:8080/Debian /''"
    "after_url ''deb HTTP://Archive.Example.COM:8080/Debian /'' = ''/''"
    "\<not> occurs ''://'' ''Archive.Example.COM:8080/Debian''"
    by (simp_all add: line_eval)
  have pa: "parse_repo ''deb http://archive.example.com/debian /'' =
     Inr \<lparr>type = ''apt-deb'', components = [], url = ''http://archive.example.com/debian'',
          trusted = False, name = ''archive_example_com_debian'', attrs = [], is_flat = True\<rparr>"
    by (simp add: line_eval)
  have pb: "parse_repo ''deb HTTP://Archive.Example.COM:8080/Debian /'' =
     Inr \<lparr>type = ''apt-deb'', components = [], url = ''HTTP://Archive.Example.COM:8080/Debian'',
          trusted = False, name = ''archive_example_com8080_debian'', attrs = [],
          is_flat = True\<rparr>"
    by code_simp
  from a(2) have a2: "\<not> (has_attr_block ''deb http://archive.example.com/debian /'' \<and>
      (\<exists>t\<in>set (attr_tokens ''deb http://archive.example.com/debian /''). CHR ''='' \<notin> set t))"
    by blast
  from b(2) have b2: "\<not> (has_attr_block ''deb HTTP://Archive.Example.COM:8080/Debian /'' \<and>
      (\<exists>t\<in>set (attr_tokens ''deb HTTP://Archive.Example.COM:8080/Debian /''). CHR ''='' \<notin> set t))"
    by blast
  have la: "after_last ''://'' ''http://archive.example.com/debian'' = ''archive.example.com/debian''"
    by (simp add: startswith_def)
  have goal: ?thesis using a b pa pb la by blast
  from flat_line_name[OF a(1) a2 a(3), of "''http''" "''archive.example.com/debian''"]
    flat_line_name[OF b(1) b2 b(3), of "''HTTP''" "''Archive.Example.COM:8080/Debian''"]
  show ?thesis by - (rule goal)
qed

lemma rstrip_append:
  "\<not> P c \<Longrightarrow> rev (dropWhile P (rev (a @ c # b))) = a @ c # rev (dropWhile P (rev b))"
  by (simp add: dropWhile_append3)

lemma rstrip_Cons:
  "rev (dropWhile P (rev (x # xs))) =
     (if rev (dropWhile P (rev xs)) = [] \<and> P x then [] else x # rev (dropWhile P (rev xs)))"
  by (auto simp add: dropWhile_append dropWhile_eq_Nil_conv)

lemma lstrip_rstrip:
  "dropWhile P (rev (dropWhile P (rev s))) = rev (dropWhile P (rev (dropWhile P s)))"
proof (induction s)
  case Nil
  then show ?case by simp
next
  case (Cons x xs)
  show ?case
  proof (cases "P x")
    case True
    then show ?thesis using Cons
      by (auto simp add: rstrip_Cons simp del: rev.simps dest: set_dropWhileD)
  next
    case False
    then show ?thesis by (simp add: rstrip_Cons del: rev.simps)
  qed
qed

lemma strip_with_rstrip: "strip_with P (rev (dropWhile P (rev s))) = strip_with P s"
  by (simp add: strip_with_def lstrip_rstrip)

lemma takeWhile_until: "c \<notin> set a \<Longrightarrow> takeWhile (\<lambda>x. x \<noteq> c) (a @ c # s) = a"
  by (induction a) auto

lemma dropWhile_until: "c \<notin> set a \<Longrightarrow> dropWhile (\<lambda>x. x \<noteq> c) (a @ c # s) = c # s"
  by (induction a) auto

lemma stages_cong:
  assumes "has_attr_block l1 = has_attr_block l2" "attr_block l1 = attr_block l2"
    "after_attr_block l1 = after_attr_block l2"
  shows "attr_tokens l1 = attr_tokens l2" "attrs_of l1 = attrs_of l2"
    "url_token l1 = url_token l2" "after_url l1 = after_url l2"
  using assms by (simp_all add: attr_tokens_def attrs_of_def url_token_def after_url_def)

text \<open>
  C10. As stated the claim fails: the text from the second \<open>]\<close> on is discarded without
  a message of its own, but an error is signaled when what is left is too short. In
  \<open>deb [a=b] http://x n] c d\<close> only \<open>n\<close> is left after the URL and
  \<open>Unknown repository format\<close> is raised, while the same line without the second
  \<open>]\<close> parses.
\<close>

theorem second_bracket_discarded_counterexample:
  "startswith ''deb [a=b] http://x n] c d'' ''deb '' \<and>
   after_prefix ''deb [a=b] http://x n] c d'' = ''['' @ ''a=b'' @ '']'' @ '' http://x n'' @ '']'' @ '' c d'' \<and>
   CHR '']'' \<notin> set ''a=b'' \<and> CHR '']'' \<notin> set '' http://x n'' \<and>
   parse_repo ''deb [a=b] http://x n] c d'' =
     Inl (UnknownRepositoryFormat ''deb [a=b] http://x n] c d'') \<and>
   parse_repo ''deb [a=b] http://x n c d'' =
     Inr \<lparr>type = ''apt-deb'', components = [''c'', ''d''], url = ''http://x'', trusted = False,
          name = ''n'', attrs = [(''a'', ''b'')], is_flat = False\<rparr>"
  by (simp add: line_eval)

text \<open>
  C10, amended. Take a line that starts with \<open>deb \<close> and whose remainder is
  \<open>[blk]mid]junk\<close>, with no \<open>]\<close> in \<open>blk\<close> and \<open>mid\<close>: an attribute block and a
  second \<open>]\<close> later in the line. \<open>_parse_repo\<close> discards everything from the second
  \<open>]\<close> on and treats the line exactly as the line cut before the second \<open>]\<close>: it
  returns the same record, so the URL, the name and the components come from \<open>mid\<close>
  alone, and it raises exactly where the cut line raises (an attribute token without
  \<open>=\<close>, or fewer than two tokens after the URL in \<open>mid\<close>). No error reports the
  discarded text itself.
\<close>

theorem second_bracket_discarded:
  assumes "startswith line ''deb ''"
    and "after_prefix line = ''['' @ blk @ '']'' @ mid @ '']'' @ junk"
    and "CHR '']'' \<notin> set blk" and "CHR '']'' \<notin> set mid"
  shows "(parse_repo line = Inr r \<longleftrightarrow> parse_repo (''deb ['' @ blk @ '']'' @ mid) = Inr r) \<and>
         (parse_repo line = Inl IndexError \<longleftrightarrow>
            parse_repo (''deb ['' @ blk @ '']'' @ mid) = Inl IndexError) \<and>
         (parse_repo line = Inl (UnknownRepositoryFormat line) \<longleftrightarrow>
            parse_repo (''deb ['' @ blk @ '']'' @ mid) =
              Inl (UnknownRepositoryFormat (''deb ['' @ blk @ '']'' @ mid)))"
proof -
  define t where "t = ''deb ['' @ blk @ '']'' @ mid"
  define rmid where "rmid = rev (dropWhile isspace (rev mid))"
  have t1: "startswith t ''deb ''" by (simp add: t_def startswith_def)
  have sp: "\<not> isspace CHR '']''" "\<not> isspace CHR ''[''" "isspace CHR '' ''"
    by (simp_all add: isspace_def)
  have "after_prefix t = rev (dropWhile isspace (rev (''['' @ blk @ CHR '']'' # mid)))"
    by (simp add: t_def after_prefix_def strip_def strip_with_def sp)
  also have "\<dots> = (''['' @ blk) @ CHR '']'' # rmid"
    using sp(1) rstrip_append[of isspace "CHR '']''" "''['' @ blk" mid] by (simp add: rmid_def)
  finally have t2: "after_prefix t = CHR ''['' # blk @ CHR '']'' # rmid" by simp
  from assms(2) have l2: "after_prefix line = CHR ''['' # blk @ CHR '']'' # mid @ CHR '']'' # junk"
    by simp
  have h: "has_attr_block line" "has_attr_block t"
    by (simp_all add: has_attr_block_def l2 t2 startswith_def)
  have tw: "takeWhile (\<lambda>c. c \<noteq> CHR '']'') (blk @ CHR '']'' # s) = blk" for s
    using assms(3) by (rule takeWhile_until)
  have dw: "dropWhile (\<lambda>c. c \<noteq> CHR '']'') (CHR ''['' # blk @ CHR '']'' # s) = CHR '']'' # s" for s
    using assms(3) dropWhile_until[of "CHR '']''" "CHR ''['' # blk" s] by simp
  have b: "attr_block line = blk" "attr_block t = blk"
    by (simp_all add: attr_block_def l2 t2 tw)
  have "takeWhile (\<lambda>c. c \<noteq> CHR '']'') (mid @ CHR '']'' # junk) = mid"
    using assms(4) by (rule takeWhile_until)
  then have a1: "after_attr_block line = strip mid"
    using h(1) by (simp add: after_attr_block_def l2 dw del: dropWhile.simps)
  have "CHR '']'' \<notin> set rmid"
    using assms(4) by (auto simp add: rmid_def dest: set_dropWhileD)
  then have tk: "takeWhile (\<lambda>c. c \<noteq> CHR '']'') rmid = rmid"
    by (auto simp add: takeWhile_eq_all_conv)
  have "after_attr_block t = strip rmid"
    using h(2) by (simp add: after_attr_block_def t2 dw tk del: dropWhile.simps)
  then have a2: "after_attr_block t = strip mid"
    by (simp add: rmid_def strip_def strip_with_rstrip)
  have c: "attr_tokens line = attr_tokens t" "attrs_of line = attrs_of t"
    "url_token line = url_token t" "after_url line = after_url t"
    by (rule stages_cong; simp add: h b a1 a2)+
  have "(parse_repo line = Inr r \<longleftrightarrow> parse_repo t = Inr r) \<and>
        (parse_repo line = Inl IndexError \<longleftrightarrow> parse_repo t = Inl IndexError) \<and>
        (parse_repo line = Inl (UnknownRepositoryFormat line) \<longleftrightarrow>
           parse_repo t = Inl (UnknownRepositoryFormat t))"
    unfolding parse_repo_stages[of line] parse_repo_stages[of t]
    using assms(1) t1 h by (simp add: c)
  then show ?thesis unfolding t_def .
qed

theorem second_bracket_discarded_witness:
  "startswith ''deb [arch=amd64] http://x/y name main] junk'' ''deb '' \<and>
   after_prefix ''deb [arch=amd64] http://x/y name main] junk'' =
     ''['' @ ''arch=amd64'' @ '']'' @ '' http://x/y name main'' @ '']'' @ '' junk'' \<and>
   CHR '']'' \<notin> set ''arch=amd64'' \<and> CHR '']'' \<notin> set '' http://x/y name main'' \<and>
   parse_repo ''deb [arch=amd64] http://x/y name main] junk'' =
     Inr \<lparr>type = ''apt-deb'', components = [''main''], url = ''http://x/y'', trusted = False,
          name = ''name'', attrs = [(''arch'', ''amd64'')], is_flat = False\<rparr> \<and>
   parse_repo (''deb ['' @ ''arch=amd64'' @ '']'' @ '' http://x/y name main'') =
     Inr \<lparr>type = ''apt-deb'', components = [''main''], url = ''http://x/y'', trusted = False,
          name = ''name'', attrs = [(''arch'', ''amd64'')], is_flat = False\<rparr>"
  using second_bracket_discarded
    [of "''deb [arch=amd64] http://x/y name main] junk''" "''arch=amd64''"
        "'' http://x/y name main''" "'' junk''"
        "\<lparr>type = ''apt-deb'', components = [''main''], url = ''http://x/y'', trusted = False,
          name = ''name'', attrs = [(''arch'', ''amd64'')], is_flat = False\<rparr>"]
  by (simp add: line_eval)

section \<open>The claims about \<open>get_repos\<close>\<close>

lemma set_first_seen: "set (first_seen xs) = set xs"
  by (induction xs rule: first_seen.induct) auto

lemma distinct_first_seen: "distinct (first_seen xs)"
  by (induction xs rule: first_seen.induct) (auto simp: set_first_seen)

lemma first_seen_snoc:
  "first_seen (xs @ [x]) = (if x \<in> set xs then first_seen xs else first_seen xs @ [x])"
  by (induction xs rule: first_seen.induct) auto

lemma update_map_in:
  "u \<in> set ks \<Longrightarrow> distinct ks \<Longrightarrow>
   AList.update u v (map (\<lambda>k. (k, f k)) ks) = map (\<lambda>k. (k, if k = u then v else f k)) ks"
  by (induction ks) auto

lemma update_map_notin:
  "u \<notin> set ks \<Longrightarrow> AList.update u v (map (\<lambda>k. (k, f k)) ks) = map (\<lambda>k. (k, f k)) ks @ [(u, v)]"
  by (induction ks) auto

lemma map_of_map_keys:
  "map_of (map (\<lambda>k. (k, f k)) ks) u = (if u \<in> set ks then Some (f u) else None)"
  by (induction ks) auto

lemma update_twice: "AList.update k v (AList.update k w al) = AList.update k v al"
  by (induction al) auto

lemma index_repo_eq:
  "index_repo r ridx =
     Inr (AList.update (url r)
           ((case map_of ridx (url r) of None \<Rightarrow> [] | Some v \<Rightarrow> v) @ [r]) ridx)"
  by (auto simp add: index_repo_def Let_def update_conv' update_twice split: option.splits)

lemma index_repo_grouped: "index_repo r (grouped seen) = Inr (grouped (seen @ [r]))"
proof (cases "url r \<in> set (map url seen)")
  case True
  then have "url r \<in> set (first_seen (map url seen))" by (simp add: set_first_seen)
  then show ?thesis using True
    by (auto simp add: index_repo_eq grouped_def map_of_map_keys update_map_in
        distinct_first_seen first_seen_snoc group_def)
next
  case False
  then have n: "url r \<notin> set (first_seen (map url seen))" by (simp add: set_first_seen)
  have "group seen (url r) = []" using False
    by (simp add: group_def filter_empty_conv) (metis image_eqI)
  then show ?thesis using False n
    by (auto simp add: index_repo_eq grouped_def map_of_map_keys update_map_notin
        first_seen_snoc group_def set_first_seen)
qed

lemma index_repos_grouped: "index_repos recs (grouped seen) = Inr (grouped (seen @ recs))"
proof (induction recs arbitrary: seen)
  case Nil
  then show ?case by simp
next
  case (Cons r recs)
  show ?case using Cons[of "seen @ [r]"] by (simp add: index_repo_grouped)
qed

lemma grouped_Nil: "grouped [] = []"
  by (simp add: grouped_def)

lemma index_files_eq:
  "index_files files (grouped seen) =
     (case parsed_records files of Inl e \<Rightarrow> Inl e | Inr recs \<Rightarrow> Inr (grouped (seen @ recs)))"
proof (induction files arbitrary: seen)
  case Nil
  then show ?case by simp
next
  case (Cons rf rfs)
  show ?case
  proof (cases "parse_repofile rf")
    case (Inl e)
    then show ?thesis by simp
  next
    case (Inr rs)
    then show ?thesis using Cons[of "seen @ rs"]
      by (simp add: index_repos_grouped split: sum.splits)
  qed
qed

lemma merge_group_merged:
  "\<forall>r\<in>set xs. url r = url a \<Longrightarrow>
   merge_group xs (Some a) = Inr (Some (foldl (\<lambda>a x. snd (merge a x)) a xs))"
proof (induction xs arbitrary: a)
  case Nil
  then show ?case by simp
next
  case (Cons x xs)
  from Cons.prems have ux: "url a = url x" by simp
  then have u1: "url (snd (merge a x)) = url a" by (simp add: merge_same_url)
  with Cons.prems have "\<forall>r\<in>set xs. url r = url (snd (merge a x))" by simp
  from Cons.IH[OF this] show ?case by (simp add: merge_same_url[OF ux])
qed

lemma merge_group_None:
  "v \<noteq> [] \<Longrightarrow> \<forall>r\<in>set v. url r = u \<Longrightarrow> merge_group v None = Inr (Some (merged v))"
  by (cases v) (simp_all add: merged_def merge_group_merged)

lemma flatten_eq:
  "\<forall>v\<in>set vs. v \<noteq> [] \<and> (\<exists>u. \<forall>r\<in>set v. url r = u) \<Longrightarrow>
   flatten vs repos = Inr (repos @ map merged vs)"
proof (induction vs arbitrary: repos)
  case Nil
  then show ?case by simp
next
  case (Cons v vs)
  from Cons.prems obtain u where v: "v \<noteq> []" "\<forall>r\<in>set v. url r = u" by auto
  from Cons.prems have rest: "\<forall>v\<in>set vs. v \<noteq> [] \<and> (\<exists>u. \<forall>r\<in>set v. url r = u)" by simp
  show ?case
  proof (cases "length v > 1")
    case True
    with v show ?thesis
      by (simp add: merge_group_None[OF v] Cons.IH[OF rest])
  next
    case False
    with v obtain r where "v = [r]" by (cases v) auto
    then show ?thesis by (simp add: Cons.IH[OF rest] merged_def)
  qed
qed

lemma get_repos_eq:
  "get_repos files =
     (case parsed_records files of Inl e \<Rightarrow> Inl e
      | Inr recs \<Rightarrow> Inr (map (\<lambda>u. merged (group recs u)) (first_seen (map url recs))))"
proof (cases "parsed_records files")
  case (Inl e)
  then show ?thesis
    using index_files_eq[of files "[]"] by (simp add: get_repos_def grouped_Nil)
next
  case (Inr recs)
  then have i: "index_files files [] = Inr (grouped recs)"
    using index_files_eq[of files "[]"] by (simp add: grouped_Nil)
  have "\<forall>v\<in>set (map snd (grouped recs)). v \<noteq> [] \<and> (\<exists>u. \<forall>r\<in>set v. url r = u)"
    by (auto simp add: grouped_def group_def set_first_seen filter_empty_conv)
  from flatten_eq[OF this, of "[]"] show ?thesis
    by (simp add: get_repos_def i Inr grouped_def comp_def)
qed


lemma foldl_merge_same_url:
  "\<forall>r\<in>set xs. url r = url a \<Longrightarrow>
   url (foldl (\<lambda>a x. snd (merge a x)) a xs) = url a \<and>
   attrs (foldl (\<lambda>a x. snd (merge a x)) a xs) = foldl dict_update (attrs a) (map attrs xs)"
proof (induction xs arbitrary: a)
  case Nil
  then show ?case by simp
next
  case (Cons x xs)
  from Cons.prems have ux: "url a = url x" by simp
  then have m: "url (snd (merge a x)) = url a"
    "attrs (snd (merge a x)) = dict_update (attrs a) (attrs x)"
    by (simp_all add: merge_same_url)
  with Cons.prems have "\<forall>r\<in>set xs. url r = url (snd (merge a x))" by simp
  from Cons.IH[OF this] m show ?case by simp
qed

lemma merged_url: "v \<noteq> [] \<Longrightarrow> \<forall>r\<in>set v. url r = u \<Longrightarrow> url (merged v) = u"
  by (cases v) (simp_all add: merged_def foldl_merge_same_url)

lemma merged_attrs:
  "v \<noteq> [] \<Longrightarrow> \<forall>r\<in>set v. url r = u \<Longrightarrow>
   attrs (merged v) = foldl dict_update (attrs (hd v)) (map attrs (tl v))"
  by (cases v) (simp_all add: merged_def foldl_merge_same_url)

lemma merged_single: "merged [r] = r"
  by (simp add: merged_def)

lemma map_of_fold_update:
  "distinct (map fst ps) \<Longrightarrow>
   map_of (fold (\<lambda>kv acc. AList.update (fst kv) (snd kv) acc) ps d) = map_of d ++ map_of ps"
proof (induction ps arbitrary: d)
  case Nil
  then show ?case by simp
next
  case (Cons p ps)
  obtain k w where p: "p = (k, w)" by (cases p)
  from Cons.prems p have notin: "k \<notin> dom (map_of ps)" and d: "distinct (map fst ps)"
    by (simp_all add: dom_map_of_conv_image_fst)
  have "map_of (fold (\<lambda>kv acc. AList.update (fst kv) (snd kv) acc) (p # ps) d) =
        map_of (AList.update k w d) ++ map_of ps"
    using Cons.IH[OF d] by (simp add: p)
  also have "\<dots> = (map_of d)(k \<mapsto> w) ++ map_of ps" by (simp only: update_conv')
  also have "\<dots> = (map_of d ++ map_of ps)(k \<mapsto> w)" using notin by (rule map_add_upd_left)
  also have "\<dots> = map_of d ++ (map_of ps)(k \<mapsto> w)" by (simp only: map_add_upd)
  also have "(map_of ps)(k \<mapsto> w) = map_of (p # ps)" by (simp only: p map_of.simps fst_conv snd_conv)
  finally show ?case .
qed

lemma map_of_dict_update:
  "distinct (map fst other) \<Longrightarrow> map_of (dict_update d other) = map_of d ++ map_of other"
  by (simp add: dict_update_def map_of_fold_update)

lemma map_of_foldl_dict_update:
  "\<forall>d\<in>set ds. distinct (map fst d) \<Longrightarrow>
   map_of (foldl dict_update d0 ds) = foldl (++) (map_of d0) (map map_of ds)"
  by (induction ds arbitrary: d0) (simp_all add: map_of_dict_update)

lemma merged_last_write_wins:
  assumes "v \<noteq> []" "\<forall>r\<in>set v. url r = u" "\<forall>r\<in>set v. distinct (map fst (attrs r))"
  shows "map_of (attrs (merged v)) = foldl (++) Map.empty (map (\<lambda>r. map_of (attrs r)) v)"
proof -
  from assms(1) obtain x xs where v: "v = x # xs" by (cases v) auto
  with assms(3) have "\<forall>d\<in>set (map attrs xs). distinct (map fst d)" by simp
  from map_of_foldl_dict_update[OF this, of "attrs x"] show ?thesis
    using merged_attrs[OF assms(1,2)] by (simp add: v comp_def)
qed

lemma distinct_fold_update:
  "distinct (map fst d) \<Longrightarrow>
   distinct (map fst (fold (\<lambda>t d. AList.update (k t) (w t) d) ts d))"
  by (induction ts arbitrary: d) (simp_all add: distinct_update)

lemma parse_repo_attrs_distinct: "parse_repo line = Inr r \<Longrightarrow> distinct (map fst (attrs r))"
  by (auto simp add: parse_repo_stages Repodata_init_def attrs_of_def distinct_fold_update
      split: if_splits)

lemma parse_lines_from:
  "parse_lines ls repos = Inr rs \<Longrightarrow>
   set rs \<subseteq> set repos \<union> {r. \<exists>l\<in>set ls. parse_repo (strip l) = Inr r}"
proof (induction ls arbitrary: repos)
  case Nil
  then show ?case by simp
next
  case (Cons l ls)
  show ?case
  proof (cases "(if startswith (strip l) ''#'' then [] else strip l) = []")
    case True
    with Cons.prems have "parse_lines ls repos = Inr rs" by (simp add: Let_def)
    from Cons.IH[OF this] show ?thesis by auto
  next
    case False
    then have s: "(if startswith (strip l) ''#'' then [] else strip l) = strip l"
      by (simp split: if_splits)
    from Cons.prems False s obtain r where
      p: "parse_repo (strip l) = Inr r"
      and q: "parse_lines ls (if is_valid r then repos @ [r] else repos) = Inr rs"
      by (auto simp add: Let_def split: sum.splits)
    from Cons.IH[OF q] p show ?thesis by (auto split: if_splits)
  qed
qed

lemma parsed_records_from:
  "parsed_records files = Inr recs \<Longrightarrow> r \<in> set recs \<Longrightarrow>
   \<exists>f\<in>set files. \<exists>l\<in>set f. parse_repo (strip l) = Inr r"
proof (induction files arbitrary: recs)
  case Nil
  then show ?case by simp
next
  case (Cons f fs)
  from Cons.prems(1) obtain rs rs1 where
    a: "parse_repofile f = Inr rs" "parsed_records fs = Inr rs1" "recs = rs @ rs1"
    by (auto split: sum.splits)
  from Cons.prems(2) a(3) consider "r \<in> set rs" | "r \<in> set rs1" by auto
  then show ?case
  proof cases
    case 1
    with parse_lines_from[of f "[]" rs] a(1) show ?thesis
      by (auto simp add: parse_repofile_def)
  next
    case 2
    from Cons.IH[OF a(2) 2] show ?thesis by auto
  qed
qed

lemma filter_eq_single: "distinct ks \<Longrightarrow> u \<in> set ks \<Longrightarrow> filter (\<lambda>k. k = u) ks = [u]"
  by (induction ks) (auto simp add: filter_empty_conv)

lemmas repos_eval =
  line_eval parse_repofile_def is_valid_def index_repo_def get_repos_def merge_def
  dict_update_def

lemma get_repos_by_records:
  "case parsed_records files of
     Inl e \<Rightarrow> get_repos files = Inl e
   | Inr recs \<Rightarrow>
       (\<exists>out. get_repos files = Inr out \<and>
          map url out = first_seen (map url recs) \<and>
          distinct (map url out) \<and>
          (\<forall>x\<in>set out.
             map_of (attrs x) =
               foldl (++) Map.empty
                 (map (\<lambda>r. map_of (attrs r)) (filter (\<lambda>r. url r = url x) recs))))"
proof (cases "parsed_records files")
  case (Inl e)
  then show ?thesis by (simp add: get_repos_eq)
next
  case (Inr recs)
  let ?ks = "first_seen (map url recs)"
  let ?out = "map (\<lambda>u. merged (group recs u)) ?ks"
  have g: "group recs k \<noteq> []" "\<forall>r\<in>set (group recs k). url r = k"
    "\<forall>r\<in>set (group recs k). distinct (map fst (attrs r))" if "k \<in> set ?ks" for k
  proof -
    from that show "group recs k \<noteq> []"
      by (auto simp add: group_def set_first_seen filter_empty_conv)
    show "\<forall>r\<in>set (group recs k). url r = k" by (simp add: group_def)
    show "\<forall>r\<in>set (group recs k). distinct (map fst (attrs r))"
    proof
      fix r assume "r \<in> set (group recs k)"
      then have "r \<in> set recs" by (simp add: group_def)
      from parsed_records_from[OF Inr this] obtain l where "parse_repo (strip l) = Inr r"
        by blast
      then show "distinct (map fst (attrs r))" by (rule parse_repo_attrs_distinct)
    qed
  qed
  have u: "url (merged (group recs k)) = k" if "k \<in> set ?ks" for k
    using g[OF that] by (simp add: merged_url)
  then have urls: "map url ?out = ?ks" by (simp add: map_idI)
  have "map_of (attrs o') =
      foldl (++) Map.empty (map (\<lambda>r. map_of (attrs r)) (filter (\<lambda>r. url r = url o') recs))"
    if "o' \<in> set ?out" for o'
  proof -
    from that obtain k where k: "k \<in> set ?ks" "o' = merged (group recs k)" by auto
    from merged_last_write_wins[OF g[OF k(1)]] u[OF k(1)] k(2)
    show ?thesis by (simp add: group_def)
  qed
  with urls have "get_repos files = Inr ?out \<and> map url ?out = ?ks \<and> distinct (map url ?out) \<and>
      (\<forall>x\<in>set ?out. map_of (attrs x) =
         foldl (++) Map.empty (map (\<lambda>r. map_of (attrs r)) (filter (\<lambda>r. url r = url x) recs)))"
    by (simp add: get_repos_eq Inr distinct_first_seen)
  then show ?thesis unfolding Inr sum.case by blast
qed

lemma first_error_append:
  "first_error (a @ b) = (case first_error a of Some e \<Rightarrow> Some e | None \<Rightarrow> first_error b)"
  by (induction a) (simp_all split: sum.splits)

lemma records_append: "records (a @ b) = records a @ records b"
  by (simp add: records_def)

lemma records_Cons:
  "records (l # ls) =
     (case parse_repo l of Inl e \<Rightarrow> [] | Inr r \<Rightarrow> if is_valid r then [r] else []) @ records ls"
  by (simp add: records_def split: sum.splits)

lemma parse_lines_eq:
  "parse_lines ls repos =
     (case first_error (filter (\<lambda>l. l \<noteq> [] \<and> \<not> startswith l ''#'') (map strip ls)) of
        Some e \<Rightarrow> Inl e
      | None \<Rightarrow>
          Inr (repos @ records (filter (\<lambda>l. l \<noteq> [] \<and> \<not> startswith l ''#'') (map strip ls))))"
proof (induction ls arbitrary: repos)
  case Nil
  then show ?case by (simp add: records_def)
next
  case (Cons l ls)
  show ?case
  proof (cases "strip l \<noteq> [] \<and> \<not> startswith (strip l) ''#''")
    case False
    then show ?thesis using Cons[of repos] by (auto simp add: Let_def split: option.splits)
  next
    case True
    show ?thesis
    proof (cases "parse_repo (strip l)")
      case (Inl e)
      with True show ?thesis by (simp add: Let_def)
    next
      case (Inr r)
      with True show ?thesis
        using Cons[of "if is_valid r then repos @ [r] else repos"]
        by (simp add: Let_def records_Cons split: option.splits)
    qed
  qed
qed

lemma parsed_records_eq:
  "parsed_records files =
     (case first_error (declared files) of
        Some e \<Rightarrow> Inl e
      | None \<Rightarrow> Inr (records (declared files)))"
proof (induction files)
  case Nil
  then show ?case by (simp add: declared_def records_def)
next
  case (Cons f fs)
  have d: "declared (f # fs) =
      filter (\<lambda>l. l \<noteq> [] \<and> \<not> startswith l ''#'') (map strip f) @ declared fs"
    by (simp add: declared_def)
  show ?case
    unfolding d first_error_append records_append
    using Cons by (simp add: parse_repofile_def parse_lines_eq split: option.splits)
qed

text \<open>
  C3. The lines fed to the parser are \<open>declared files\<close>: the stripped lines of all files
  in file-then-line order, without the empty ones and the comments. If \<open>_parse_repo\<close>
  raises on one of them, \<open>get_repos\<close> raises the exception of the first such line.
  Otherwise it returns one record for each distinct URL of the valid records of these
  lines, in the order in which the URLs are first seen over the whole input, and the
  \<open>attrs\<close> of each returned record are those of the declarations of its URL taken in
  file-then-line order, a later declaration overriding an earlier one key by key. The
  witness has three declarations of one URL in three files.
\<close>

theorem get_repos_one_record_per_url:
  "case first_error (declared files) of
     Some e \<Rightarrow> get_repos files = Inl e
   | None \<Rightarrow>
       (\<exists>out. get_repos files = Inr out \<and>
          map url out = first_seen (map url (records (declared files))) \<and>
          distinct (map url out) \<and>
          (\<forall>x\<in>set out.
             map_of (attrs x) =
               foldl (++) Map.empty
                 (map (\<lambda>r. map_of (attrs r))
                   (filter (\<lambda>r. url r = url x) (records (declared files))))))"
proof (cases "first_error (declared files)")
  case None
  then have "parsed_records files = Inr (records (declared files))"
    by (simp add: parsed_records_eq)
  with get_repos_by_records[of files] None show ?thesis by simp
next
  case (Some e)
  then have "parsed_records files = Inl e" by (simp add: parsed_records_eq)
  with get_repos_by_records[of files] Some show ?thesis by simp
qed

theorem get_repos_one_record_per_url_witness:
  "first_error (declared
     [[''deb [a=1 b=2] http://x n b a'', ''# c'', [], ''deb http://y m q''],
      [''deb [a=3 c=4] http://x n2 a z''],
      [''deb [b=5] http://x n3 k'']]) = None \<and>
   records (declared
     [[''deb [a=1 b=2] http://x n b a'', ''# c'', [], ''deb http://y m q''],
      [''deb [a=3 c=4] http://x n2 a z''],
      [''deb [b=5] http://x n3 k'']]) =
     [\<lparr>type = ''apt-deb'', components = [''b'', ''a''], url = ''http://x'', trusted = False,
        name = ''n'', attrs = [(''a'', ''1''), (''b'', ''2'')], is_flat = False\<rparr>,
      \<lparr>type = ''apt-deb'', components = [''q''], url = ''http://y'', trusted = False,
        name = ''m'', attrs = [], is_flat = False\<rparr>,
      \<lparr>type = ''apt-deb'', components = [''a'', ''z''], url = ''http://x'', trusted = False,
        name = ''n2'', attrs = [(''a'', ''3''), (''c'', ''4'')], is_flat = False\<rparr>,
      \<lparr>type = ''apt-deb'', components = [''k''], url = ''http://x'', trusted = False,
        name = ''n3'', attrs = [(''b'', ''5'')], is_flat = False\<rparr>] \<and>
   get_repos
     [[''deb [a=1 b=2] http://x n b a'', ''# c'', [], ''deb http://y m q''],
      [''deb [a=3 c=4] http://x n2 a z''],
      [''deb [b=5] http://x n3 k'']] =
     Inr [\<lparr>type = ''apt-deb'', components = [''a'', ''b'', ''k'', ''z''], url = ''http://x'',
            trusted = False, name = ''n'',
            attrs = [(''a'', ''3''), (''b'', ''5''), (''c'', ''4'')], is_flat = False\<rparr>,
          \<lparr>type = ''apt-deb'', components = [''q''], url = ''http://y'', trusted = False,
            name = ''m'', attrs = [], is_flat = False\<rparr>]"
proof -
  have a: "first_error (declared
     [[''deb [a=1 b=2] http://x n b a'', ''# c'', [], ''deb http://y m q''],
      [''deb [a=3 c=4] http://x n2 a z''],
      [''deb [b=5] http://x n3 k'']]) = None"
    by (simp add: repos_eval declared_def)
  have b: "records (declared
     [[''deb [a=1 b=2] http://x n b a'', ''# c'', [], ''deb http://y m q''],
      [''deb [a=3 c=4] http://x n2 a z''],
      [''deb [b=5] http://x n3 k'']]) =
     [\<lparr>type = ''apt-deb'', components = [''b'', ''a''], url = ''http://x'', trusted = False,
        name = ''n'', attrs = [(''a'', ''1''), (''b'', ''2'')], is_flat = False\<rparr>,
      \<lparr>type = ''apt-deb'', components = [''q''], url = ''http://y'', trusted = False,
        name = ''m'', attrs = [], is_flat = False\<rparr>,
      \<lparr>type = ''apt-deb'', components = [''a'', ''z''], url = ''http://x'', trusted = False,
        name = ''n2'', attrs = [(''a'', ''3''), (''c'', ''4'')], is_flat = False\<rparr>,
      \<lparr>type = ''apt-deb'', components = [''k''], url = ''http://x'', trusted = False,
        name = ''n3'', attrs = [(''b'', ''5'')], is_flat = False\<rparr>]"
    by (simp add: repos_eval declared_def records_def)
  have c: "get_repos
     [[''deb [a=1 b=2] http://x n b a'', ''# c'', [], ''deb http://y m q''],
      [''deb [a=3 c=4] http://x n2 a z''],
      [''deb [b=5] http://x n3 k'']] =
     Inr [\<lparr>type = ''apt-deb'', components = [''a'', ''b'', ''k'', ''z''], url = ''http://x'',
            trusted = False, name = ''n'',
            attrs = [(''a'', ''3''), (''b'', ''5''), (''c'', ''4'')], is_flat = False\<rparr>,
          \<lparr>type = ''apt-deb'', components = [''q''], url = ''http://y'', trusted = False,
            name = ''m'', attrs = [], is_flat = False\<rparr>]"
    by (simp add: repos_eval)
  have goal: ?thesis using a b c by blast
  from get_repos_one_record_per_url
    [of "[[''deb [a=1 b=2] http://x n b a'', ''# c'', [], ''deb http://y m q''],
          [''deb [a=3 c=4] http://x n2 a z''],
          [''deb [b=5] http://x n3 k'']]"]
  show ?thesis by - (rule goal)
qed

text \<open>
  C9. When exactly one valid record \<open>r\<close> of the input has the URL \<open>u\<close>, \<open>get_repos\<close>
  returns exactly one record with that URL and it is \<open>r\<close> itself, the record
  \<open>_parse_repo\<close> returned for a line of the input: no field differs, and the components
  keep their declared order and their duplicates.
\<close>

theorem get_repos_pass_through:
  assumes "parsed_records files = Inr recs" and "filter (\<lambda>x. url x = u) recs = [r]"
  shows "\<exists>out. get_repos files = Inr out \<and> filter (\<lambda>x. url x = u) out = [r] \<and>
           (\<exists>f\<in>set files. \<exists>l\<in>set f. parse_repo (strip l) = Inr r)"
proof -
  let ?ks = "first_seen (map url recs)"
  let ?out = "map (\<lambda>u. merged (group recs u)) ?ks"
  have "r \<in> set (filter (\<lambda>x. url x = u) recs)" by (simp add: assms(2))
  then have rin: "r \<in> set recs" "url r = u" by simp_all
  then have uin: "u \<in> set ?ks" by (auto simp add: set_first_seen)
  have u: "url (merged (group recs k)) = k" if "k \<in> set ?ks" for k
  proof -
    from that have "group recs k \<noteq> []"
      by (auto simp add: group_def set_first_seen filter_empty_conv)
    moreover have "\<forall>r\<in>set (group recs k). url r = k" by (simp add: group_def)
    ultimately show ?thesis by (rule merged_url)
  qed
  have "filter (\<lambda>x. url x = u) ?out = map (\<lambda>u. merged (group recs u)) (filter (\<lambda>k. k = u) ?ks)"
  proof -
    have "filter (\<lambda>k. url (merged (group recs k)) = u) ?ks = filter (\<lambda>k. k = u) ?ks"
      by (rule filter_cong) (simp_all add: u)
    then show ?thesis by (simp add: filter_map comp_def)
  qed
  also have "\<dots> = [merged (group recs u)]"
    by (simp add: filter_eq_single[OF distinct_first_seen uin])
  also have "\<dots> = [r]" using assms(2) by (simp add: group_def merged_single)
  finally have "filter (\<lambda>x. url x = u) ?out = [r]" .
  moreover have "get_repos files = Inr ?out" by (simp add: get_repos_eq assms(1))
  moreover have "\<exists>f\<in>set files. \<exists>l\<in>set f. parse_repo (strip l) = Inr r"
    by (rule parsed_records_from[OF assms(1) rin(1)])
  ultimately show ?thesis by blast
qed

theorem get_repos_pass_through_witness:
  "parsed_records [[''deb http://y m q b q''], [''deb http://x n b'', ''deb http://x n a'']] =
     Inr [\<lparr>type = ''apt-deb'', components = [''q'', ''b'', ''q''], url = ''http://y'',
            trusted = False, name = ''m'', attrs = [], is_flat = False\<rparr>,
          \<lparr>type = ''apt-deb'', components = [''b''], url = ''http://x'', trusted = False,
            name = ''n'', attrs = [], is_flat = False\<rparr>,
          \<lparr>type = ''apt-deb'', components = [''a''], url = ''http://x'', trusted = False,
            name = ''n'', attrs = [], is_flat = False\<rparr>] \<and>
   get_repos [[''deb http://y m q b q''], [''deb http://x n b'', ''deb http://x n a'']] =
     Inr [\<lparr>type = ''apt-deb'', components = [''q'', ''b'', ''q''], url = ''http://y'',
            trusted = False, name = ''m'', attrs = [], is_flat = False\<rparr>,
          \<lparr>type = ''apt-deb'', components = [''a'', ''b''], url = ''http://x'', trusted = False,
            name = ''n'', attrs = [], is_flat = False\<rparr>] \<and>
   parse_repo ''deb http://y m q b q'' =
     Inr \<lparr>type = ''apt-deb'', components = [''q'', ''b'', ''q''], url = ''http://y'',
            trusted = False, name = ''m'', attrs = [], is_flat = False\<rparr>"
  using get_repos_pass_through
    [of "[[''deb http://y m q b q''], [''deb http://x n b'', ''deb http://x n a'']]"
        "[\<lparr>type = ''apt-deb'', components = [''q'', ''b'', ''q''], url = ''http://y'',
            trusted = False, name = ''m'', attrs = [], is_flat = False\<rparr>,
          \<lparr>type = ''apt-deb'', components = [''b''], url = ''http://x'', trusted = False,
            name = ''n'', attrs = [], is_flat = False\<rparr>,
          \<lparr>type = ''apt-deb'', components = [''a''], url = ''http://x'', trusted = False,
            name = ''n'', attrs = [], is_flat = False\<rparr>]"
        "''http://y''"
        "\<lparr>type = ''apt-deb'', components = [''q'', ''b'', ''q''], url = ''http://y'',
            trusted = False, name = ''m'', attrs = [], is_flat = False\<rparr>"]
  by (simp add: repos_eval)

end
